theory Spec2Isabelle
  imports Complex_Main "HOL-Library.Product_Lexorder" "HOL-Library.Multiset"
begin

section \<open>Interactive continuum fitting: linetools/analysis/interactive_plot.py\<close>

text \<open>
  The module is Python 2 code (\<^verbatim>\<open>raw_input\<close>, indexing the result of \<^verbatim>\<open>zip\<close>) on top of
  numpy and matplotlib. The embedding covers \<^verbatim>\<open>local_median\<close>, the navigation handler
  \<^verbatim>\<open>PlotWrapBase.on_keypress_navigate\<close> and the class \<^verbatim>\<open>InteractiveCoFit\<close>: its
  initialization, \<^verbatim>\<open>update\<close> and \<^verbatim>\<open>on_keypress\<close>.

  \<^item> Python floats are modelled as \<^typ>\<open>real\<close>: rounding, NaN and infinities are left out,
    so \<^verbatim>\<open>np.isnan\<close> is never true of a model value.
  \<^item> A knot is the tuple \<^verbatim>\<open>(wavelength, flux)\<close>. \<^verbatim>\<open>list.sort()\<close> on tuples orders by
    wavelength first and by flux among equal wavelengths: the lexicographic order on
    pairs, with \<^const>\<open>sort\<close> as the (stable) sort.
  \<^item> An exception is a value of the type \<open>error\<close>. A handler mutates \<^verbatim>\<open>self\<close> in place, so a
    handler that raises half way leaves its earlier assignments behind: handlers
    return the pair of the exception raised, if any, and the state reached.
  \<^item> Plot artists, printing, drawing and the knots file \<^verbatim>\<open>_knots.jsn\<close> are display and
    disk effects; they are not part of the state modelled here.
\<close>

subsection \<open>Python and numpy primitives\<close>

type_synonym point = "real \<times> real"

datatype error = IndexError | ValueError | NameError | TypeError

text \<open>\<^verbatim>\<open>a[i]\<close>: a negative index counts from the end, an index out of range raises.\<close>

definition getitem :: "'a list \<Rightarrow> int \<Rightarrow> error + 'a" where
  "getitem a i =
     (let n = int (length a); j = (if i < 0 then n + i else i)
      in if 0 \<le> j \<and> j < n then Inr (a ! nat j) else Inl IndexError)"

text \<open>\<^verbatim>\<open>a[i:j]\<close>: each bound is taken from the end when negative, then clipped to the list.\<close>

definition slice_index :: "nat \<Rightarrow> int \<Rightarrow> nat" where
  "slice_index n k = (if k < 0 then nat (max (k + int n) 0) else min (nat k) n)"

definition py_slice :: "'a list \<Rightarrow> int \<Rightarrow> int \<Rightarrow> 'a list" where
  "py_slice a i j =
     (let lo = slice_index (length a) i; hi = slice_index (length a) j
      in take (hi - lo) (drop lo a))"

text \<open>\<^verbatim>\<open>cp[1:-1][1::2]\<close> keeps the elements at odd positions.\<close>

fun every_second :: "'a list \<Rightarrow> 'a list" where
  "every_second (a # b # xs) = b # every_second xs"
| "every_second xs = []"

text \<open>
  \<^verbatim>\<open>np.searchsorted(a, v)\<close> (side left) on an increasing array: the number of leading
  entries below \<open>v\<close>.
\<close>

definition searchsorted :: "real list \<Rightarrow> real \<Rightarrow> int" where
  "searchsorted a v = int (length (takeWhile (\<lambda>w. w < v) a))"

text \<open>\<^verbatim>\<open>np.diff\<close>, \<^verbatim>\<open>np.median\<close>, \<^verbatim>\<open>np.hypot\<close>, \<^verbatim>\<open>np.argmin\<close> (first index of the least entry).\<close>

definition diff :: "real list \<Rightarrow> real list" where
  "diff xs = map2 (\<lambda>a b. b - a) (butlast xs) (tl xs)"

definition median :: "real list \<Rightarrow> real" where
  "median xs =
     (let s = sort xs; n = length s
      in if even n then (s ! (n div 2 - 1) + s ! (n div 2)) / 2 else s ! (n div 2))"

definition hypot :: "real \<Rightarrow> real \<Rightarrow> real" where
  "hypot a b = sqrt (a\<^sup>2 + b\<^sup>2)"

fun argmin :: "real list \<Rightarrow> nat" where
  "argmin [] = 0"
| "argmin [v] = 0"
| "argmin (v # vs) = (let k = argmin vs in if v \<le> vs ! k then 0 else Suc k)"

text \<open>
  \<^verbatim>\<open>np.interp(x, xp, fp)\<close> at one \<open>x\<close>, for increasing sample points \<open>xp\<close>: the end values
  outside the samples, a sample's own value at a sample, the chord in between.
\<close>

definition interp :: "real \<Rightarrow> real list \<Rightarrow> real list \<Rightarrow> real" where
  "interp x xp fp =
     (if x > last xp then last fp
      else if x < hd xp then hd fp
      else let j = length (takeWhile (\<lambda>w. w \<le> x) xp) - 1
           in if j = length xp - 1 then fp ! j
              else if xp ! j = x then fp ! j
              else (fp ! (j + 1) - fp ! j) / (xp ! (j + 1) - xp ! j) * (x - xp ! j) + fp ! j)"

text \<open>
  Modelled from the spec: \<^verbatim>\<open>between\<close> of linetools.utils is not among the sources. The
  handlers reject a cursor "outside the fitting window"; the window is taken from
  \<open>vmin\<close> (included) to \<open>vmax\<close> (excluded). No theorem below depends on how the two
  end points are treated.
\<close>

definition between :: "real \<Rightarrow> real \<Rightarrow> real \<Rightarrow> bool" where
  "between a vmin vmax = (vmin \<le> a \<and> a < vmax)"

subsection \<open>local_median\<close>

text \<open>
  \<^verbatim>\<open>fl[i0:i1][good]\<close>: the fluxes of the pixels within \<open>npix\<close> of \<open>x\<close> whose error is
  positive. The three arrays are parallel.
\<close>

definition good_flux :: "real list \<Rightarrow> real list \<Rightarrow> real list \<Rightarrow> real \<Rightarrow> int \<Rightarrow> real list" where
  "good_flux w f e x npix =
     (let i = searchsorted w x; i0 = i - npix; i1 = i + npix
      in map fst (filter (\<lambda>p. snd p > 0) (zip (py_slice f i0 i1) (py_slice e i0 i1))))"

definition local_median :: "real list \<Rightarrow> real list \<Rightarrow> real list \<Rightarrow> real \<Rightarrow> int \<Rightarrow> real \<Rightarrow> real" where
  "local_median w f e x npix dflt =
     (let g = good_flux w f e x npix in if g \<noteq> [] then median g else dflt)"

subsection \<open>Events\<close>

text \<open>
  A matplotlib key event: the key, the axes under the cursor (if any), the cursor in
  data coordinates and in screen pixels (\<^verbatim>\<open>event.x\<close>, \<^verbatim>\<open>event.y\<close>). The figure of
  \<^verbatim>\<open>plotinit\<close> has two axes: the spectrum axes \<^verbatim>\<open>fig.axes[0]\<close> and the residual axes.
\<close>

datatype axes = MainAxes | ResidAxes

record event =
  key :: string
  inaxes :: "axes option"
  xdata :: real
  ydata :: real
  xpix :: real
  ypix :: real

subsection \<open>PlotWrapBase.on_keypress_navigate\<close>

record limits =
  xlim :: "real \<times> real"
  ylim :: "real \<times> real"

text \<open>
  \<^verbatim>\<open>fl[between(wa, x0, x1)]\<close>, and the handler itself. \<^verbatim>\<open>get_flux_plotrange\<close> of
  linetools.spectra.plotting is not among the sources and is a parameter.
\<close>

definition fl_between :: "real list \<Rightarrow> real list \<Rightarrow> real \<Rightarrow> real \<Rightarrow> real list" where
  "fl_between w f x0 x1 = map snd (filter (\<lambda>p. between (fst p) x0 x1) (zip w f))"

definition on_keypress_navigate ::
  "(real list \<Rightarrow> error + real \<times> real) \<Rightarrow> real list \<Rightarrow> real list \<Rightarrow> limits \<Rightarrow> event
     \<Rightarrow> error option \<times> limits" where
  "on_keypress_navigate get_flux_plotrange w f ax ev =
     (let x0 = fst (xlim ax); x1 = snd (xlim ax); y0 = fst (ylim ax); y1 = snd (ylim ax);
          dx = \<bar>x1 - x0\<bar>; dy = \<bar>y1 - y0\<bar>; x = xdata ev
      in if key ev = ''i'' \<and> inaxes ev \<noteq> None then
           (None, ax\<lparr>xlim := (x - 0.275 * dx, x + 0.275 * dx)\<rparr>)
         else if key ev = ''o'' \<and> inaxes ev \<noteq> None then
           (None, ax\<lparr>xlim := (x - 0.95 * dx, x + 0.95 * dx)\<rparr>)
         else if key ev = ''Y'' \<and> inaxes ev \<noteq> None then
           (None, ax\<lparr>ylim := (y0 - 0.05 * dy, y1 + 0.4 * dy)\<rparr>)
         else if key ev = ''y'' \<and> inaxes ev \<noteq> None then
           (case get_flux_plotrange (fl_between w f x0 x1) of
              Inl err \<Rightarrow> (Some err, ax)
            | Inr r \<Rightarrow> (None, ax\<lparr>ylim := r\<rparr>))
         else if key ev = '']'' then
           (None, ax\<lparr>xlim := (x1 - 0.1 * dx, x1 + 0.9 * dx)\<rparr>)
         else if key ev = ''['' then
           (None, ax\<lparr>xlim := (x0 - 0.9 * dx, x0 + 0.1 * dx)\<rparr>)
         else if key ev = ''w'' then
           (case getitem w 0 of
              Inl err \<Rightarrow> (Some err, ax)
            | Inr w0 \<Rightarrow>
                (case getitem w (- 1) of
                   Inl err \<Rightarrow> (Some err, ax)
                 | Inr wl \<Rightarrow>
                     (case get_flux_plotrange f of
                        Inl err \<Rightarrow> (Some err, ax\<lparr>xlim := (w0, wl)\<rparr>)
                      | Inr r \<Rightarrow> (None, ax\<lparr>xlim := (w0, wl), ylim := r\<rparr>))))
         else if key ev = ''b'' \<and> inaxes ev \<noteq> None then
           (None, ax\<lparr>ylim := (ydata ev, y1)\<rparr>)
         else if key ev = ''t'' \<and> inaxes ev \<noteq> None then
           (None, ax\<lparr>ylim := (y0, ydata ev)\<rparr>)
         else if key ev = ''l'' \<and> inaxes ev \<noteq> None then
           (None, ax\<lparr>xlim := (xdata ev, x1)\<rparr>)
         else if key ev = ''r'' \<and> inaxes ev \<noteq> None then
           (None, ax\<lparr>xlim := (x0, xdata ev)\<rparr>)
         else (None, ax))"

subsection \<open>InteractiveCoFit: state\<close>

text \<open>
  The attributes of \<^verbatim>\<open>self\<close> that the handlers read and write. The matplotlib transform
  \<^verbatim>\<open>self.ax.transData.transform\<close> (data to screen pixels, point by point) and the
  constructor \<^verbatim>\<open>AkimaSpline\<close> of linetools.analysis.interp, which is not among the
  sources, are parameters: the spline constructor may raise or return an evaluator,
  and the evaluator, applied to an array of wavelengths, may raise or return an array.
\<close>

record cofit =
  wa :: "real list"
  fl :: "real list"
  er :: "real list"
  continuum :: "real list"
  contpoints :: "point list"
  indices :: "int \<times> int"
  anchor_start :: point
  anchor_end :: point
  wmin :: real
  wmax :: real
  finished :: bool

record toolkit =
  transData :: "point \<Rightarrow> point"
  AkimaSpline :: "point list \<Rightarrow> error + (real list \<Rightarrow> error + real list)"

subsection \<open>InteractiveCoFit.update\<close>

text \<open>
  \<^verbatim>\<open>co[i:j] = v\<close> on a numpy array: the value must have the length of the slice, or
  length one (it is then repeated).
\<close>

definition assign_slice :: "real list \<Rightarrow> int \<Rightarrow> int \<Rightarrow> real list \<Rightarrow> error + real list" where
  "assign_slice a i j v =
     (let lo = slice_index (length a) i; hi = slice_index (length a) j; n = hi - lo
      in if length v = n then Inr (take lo a @ v @ drop (lo + n) a)
         else if length v = 1 then Inr (take lo a @ replicate n (hd v) @ drop (lo + n) a)
         else Inl ValueError)"

text \<open>
  \<^verbatim>\<open>update\<close> refits the continuum inside the window, in place. With no knot at all the
  names \<^verbatim>\<open>i\<close>, \<^verbatim>\<open>j\<close> are never bound and line 392 raises; with no interior knot the
  unpacking \<^verbatim>\<open>x, y = zip(*self.contpoints[1:-1])\<close> of line 405 raises, after the
  continuum was rewritten. Residuals, histogram, artists and the save of the knots
  file are display and disk effects.
\<close>

definition update :: "toolkit \<Rightarrow> cofit \<Rightarrow> error option \<times> cofit" where
  "update tk s =
     (let cpts = anchor_start s # contpoints s @ [anchor_end s]
      in if length cpts < 3 then (Some NameError, s)
         else case AkimaSpline tk cpts of
                Inl err \<Rightarrow> (Some err, s)
              | Inr spline \<Rightarrow>
                  (let i = fst (indices s); j = snd (indices s)
                   in case spline (py_slice (wa s) i j) of
                        Inl err \<Rightarrow> (Some err, s)
                      | Inr v \<Rightarrow>
                          (case assign_slice (continuum s) i j v of
                             Inl err \<Rightarrow> (Some err, s)
                           | Inr co \<Rightarrow>
                               if length (contpoints s) \<le> 2
                               then (Some ValueError, s\<lparr>continuum := co\<rparr>)
                               else (None, s\<lparr>continuum := co\<rparr>))))"

subsection \<open>InteractiveCoFit.__init__\<close>

text \<open>
  Lines 274 to 298 and the first \<^verbatim>\<open>update\<close> of line 313. The argument \<open>cps0\<close> is the
  knot list in effect after the optional reload from the knots file; \<open>co\<close> is the
  continuum array passed in, and a figure is passed in. \<^verbatim>\<open>plotinit\<close> builds the axes
  and artists, which are display state. An exception leaves no object behind, so the
  result is either the exception or the initial state.
\<close>

definition InteractiveCoFit_init ::
  "toolkit \<Rightarrow> real list \<Rightarrow> real list \<Rightarrow> real list \<Rightarrow> point list \<Rightarrow> real list \<Rightarrow> error + cofit" where
  "InteractiveCoFit_init tk w f e cps0 co =
     (let cps = sort cps0
      in if cps = [] then Inl IndexError
         else
           let wmn = fst (hd cps); wmx = fst (last cps);
               k1 = searchsorted w wmn; k2 = searchsorted w wmx;
               i1 = (if k1 = 0 then 1 else k1);
               i2 = (if k2 = int (length w) - 1 \<or> k2 < 0 then int (length w) else k2)
           in case getitem w i1 of Inl err \<Rightarrow> Inl err | Inr w1 \<Rightarrow>
              (let cps1 = cps[0 := (w1, snd (hd cps))]
               in case getitem w i2 of Inl err \<Rightarrow> Inl err | Inr w2 \<Rightarrow>
                  (let cps2 = cps1[length cps1 - 1 := (w2, snd (last cps1))]
                   in case getitem w (i1 - 1) of Inl err \<Rightarrow> Inl err | Inr a1w \<Rightarrow>
                      (case getitem co (i1 - 1) of Inl err \<Rightarrow> Inl err | Inr a1c \<Rightarrow>
                      (case getitem w (i2 + 1) of Inl err \<Rightarrow> Inl err | Inr a2w \<Rightarrow>
                      (case getitem co (i2 + 1) of Inl err \<Rightarrow> Inl err | Inr a2c \<Rightarrow>
                         (let s = \<lparr>wa = w, fl = f, er = e, continuum = co, contpoints = cps2,
                                   indices = (i1, i2), anchor_start = (a1w, a1c),
                                   anchor_end = (a2w, a2c), wmin = wmn, wmax = wmx,
                                   finished = False\<rparr>
                          in case update tk s of
                               (Some err, s') \<Rightarrow> Inl err
                             | (None, s') \<Rightarrow> Inr s')))))))"

subsection \<open>InteractiveCoFit.on_keypress\<close>

text \<open>
  The screen distances \<^verbatim>\<open>sep\<close> from the cursor to every knot and the index
  \<^verbatim>\<open>ind\<close> of the least of them (lines 472 to 475, 485 to 488, 499 to 502).
\<close>

definition sep :: "toolkit \<Rightarrow> point list \<Rightarrow> event \<Rightarrow> real list" where
  "sep tk cps ev =
     map (\<lambda>p. hypot (xpix ev - fst (transData tk p)) (ypix ev - snd (transData tk p))) cps"

definition nearest :: "toolkit \<Rightarrow> point list \<Rightarrow> event \<Rightarrow> nat" where
  "nearest tk cps ev = argmin (sep tk cps ev)"

text \<open>
  Key \<^verbatim>\<open>+\<close>, lines 424 to 436. \<^verbatim>\<open>xnew\<close> holds the midpoint of every adjacent pair of knot
  wavelengths. Unpacking \<^verbatim>\<open>zip(*[])\<close> raises on an empty knot list.
\<close>

definition midpoints :: "real list \<Rightarrow> real list" where
  "midpoints xc = map2 (\<lambda>a d. a + 0.5 * d) (butlast xc) (diff xc)"

definition double_knots :: "toolkit \<Rightarrow> cofit \<Rightarrow> error option \<times> cofit" where
  "double_knots tk s =
     (if contpoints s = [] then (Some ValueError, s)
      else
        let xc = map fst (contpoints s); yc = map snd (contpoints s);
            xnew = midpoints xc;
            ynew = map (\<lambda>x. local_median (wa s) (fl s) (er s) x 10 (interp x xc yc)) xnew
        in update tk (s\<lparr>contpoints := sort (contpoints s @ zip xnew ynew)\<rparr>))"

text \<open>Key \<^verbatim>\<open>_\<close>, lines 437 to 441.\<close>

definition halve_knots :: "toolkit \<Rightarrow> cofit \<Rightarrow> error option \<times> cofit" where
  "halve_knots tk s =
     (let cp = contpoints s
      in if cp = [] then (Some IndexError, s)
         else update tk
                (s\<lparr>contpoints := [hd cp] @ every_second (py_slice cp 1 (- 1)) @ [last cp]\<rparr>))"

text \<open>Keys \<^verbatim>\<open>a\<close> and \<^verbatim>\<open>3\<close>, lines 445 to 454, and key \<^verbatim>\<open>A\<close>, lines 455 to 465.\<close>

definition add_knot :: "toolkit \<Rightarrow> cofit \<Rightarrow> event \<Rightarrow> error option \<times> cofit" where
  "add_knot tk s ev =
     (if \<not> between (xdata ev) (wmin s) (wmax s) then (None, s)
      else
        let x = xdata ev; y = ydata ev
        in if contpoints s = [] \<or> x \<notin> set (map fst (contpoints s))
           then update tk (s\<lparr>contpoints := sort (contpoints s @ [(x, y)])\<rparr>)
           else (None, s))"

definition add_knot_median :: "toolkit \<Rightarrow> cofit \<Rightarrow> event \<Rightarrow> error option \<times> cofit" where
  "add_knot_median tk s ev =
     (if \<not> between (xdata ev) (wmin s) (wmax s) then (None, s)
      else
        let x = xdata ev
        in if contpoints s = [] \<or> x \<notin> set (map fst (contpoints s))
           then let y = local_median (wa s) (fl s) (er s) x 10 (ydata ev)
                in update tk (s\<lparr>contpoints := sort (contpoints s @ [(x, y)])\<rparr>)
           else (None, s))"

text \<open>
  Keys \<^verbatim>\<open>d\<close> and \<^verbatim>\<open>4\<close>, lines 466 to 479. \<^verbatim>\<open>list.remove\<close> deletes the first entry
  equal to its argument.
\<close>

definition delete_knot :: "toolkit \<Rightarrow> cofit \<Rightarrow> event \<Rightarrow> error option \<times> cofit" where
  "delete_knot tk s ev =
     (if length (contpoints s) < 3 then (None, s)
      else
        let ind = nearest tk (contpoints s) ev
        in if ind = 0 \<or> ind = length (sep tk (contpoints s) ev) - 1 then (None, s)
           else update tk (s\<lparr>contpoints := remove1 (contpoints s ! ind) (contpoints s)\<rparr>))"

text \<open>
  Key \<^verbatim>\<open>m\<close>, lines 480 to 493, and key \<^verbatim>\<open>M\<close>, lines 494 to 510. With no knot the
  unpacking of the transformed list raises. In the \<^verbatim>\<open>M\<close> branch \<^verbatim>\<open>y\<close> is bound only
  when the cursor's wavelength is not a knot's; line 508 reads it in every case.
\<close>

definition move_knot :: "toolkit \<Rightarrow> cofit \<Rightarrow> event \<Rightarrow> error option \<times> cofit" where
  "move_knot tk s ev =
     (if \<not> between (xdata ev) (wmin s) (wmax s) then (None, s)
      else if contpoints s = [] then (Some ValueError, s)
      else
        let ind = nearest tk (contpoints s) ev
        in if ind = 0 \<or> ind = length (sep tk (contpoints s) ev) - 1 then (None, s)
           else update tk
                  (s\<lparr>contpoints := sort ((contpoints s)[ind := (xdata ev, ydata ev)])\<rparr>))"

definition move_knot_median :: "toolkit \<Rightarrow> cofit \<Rightarrow> event \<Rightarrow> error option \<times> cofit" where
  "move_knot_median tk s ev =
     (if \<not> between (xdata ev) (wmin s) (wmax s) then (None, s)
      else if contpoints s = [] then (Some ValueError, s)
      else
        let ind = nearest tk (contpoints s) ev
        in if ind = 0 \<or> ind = length (sep tk (contpoints s) ev) - 1 then (None, s)
           else
             let x = xdata ev
             in if contpoints s = [] \<or> x \<notin> set (map fst (contpoints s))
                then let y = local_median (wa s) (fl s) (er s) x 10 (ydata ev)
                     in update tk (s\<lparr>contpoints := sort ((contpoints s)[ind := (x, y)])\<rparr>)
                else (Some NameError, s))"

text \<open>
  The handler. Keys \<^verbatim>\<open>+\<close> and \<^verbatim>\<open>_\<close> act wherever the cursor is; an exception ends the
  handler; the remaining keys need the cursor in the spectrum axes. The \<^verbatim>\<open>if\<close> of
  line 445 and the chain starting at line 455 test one key, so they read as one chain.
\<close>

definition on_keypress :: "toolkit \<Rightarrow> cofit \<Rightarrow> event \<Rightarrow> error option \<times> cofit" where
  "on_keypress tk s ev =
     (if key ev = ''q'' then (None, s\<lparr>finished := True\<rparr>)
      else
        let r1 = (if key ev = ''+'' then double_knots tk s else (None, s))
        in if fst r1 \<noteq> None then r1
           else
             let r2 = (if key ev = ''_'' then halve_knots tk (snd r1) else r1)
             in if fst r2 \<noteq> None then r2
                else if inaxes ev \<noteq> Some MainAxes then r2
                else if key ev = ''a'' \<or> key ev = ''3'' then add_knot tk (snd r2) ev
                else if key ev = ''A'' then add_knot_median tk (snd r2) ev
                else if key ev = ''d'' \<or> key ev = ''4'' then delete_knot tk (snd r2) ev
                else if key ev = ''m'' then move_knot tk (snd r2) ev
                else if key ev = ''M'' then move_knot_median tk (snd r2) ev
                else r2)"

subsection \<open>The event loop\<close>

text \<open>
  The toolkit delivers one key event at a time and each handler runs to completion. An
  exception raised by a handler is reported and the loop goes on, with the state as the
  handler left it.
\<close>

fun run_events :: "toolkit \<Rightarrow> cofit \<Rightarrow> event list \<Rightarrow> cofit" where
  "run_events tk s [] = s"
| "run_events tk s (ev # evs) = run_events tk (snd (on_keypress tk s ev)) evs"

subsection \<open>The knot list's invariant\<close>

text \<open>The knot list is sorted by wavelength and holds at least 2 points.\<close>

definition knots_ok :: "point list \<Rightarrow> bool" where
  "knots_ok cps = (sorted (map fst cps) \<and> 2 \<le> length cps)"

subsection \<open>A concrete toolkit for worked examples\<close>

text \<open>
  Stand-ins for two parameters at concrete inputs: a plot range that ignores the flux,
  and a screen whose pixels are the data coordinates (\<open>transData\<close> is the identity).
\<close>

definition flat_plotrange :: "real list \<Rightarrow> error + real \<times> real" where
  "flat_plotrange f = Inr (0, 1)"

text \<open>
  Modelled from the spec: the class \<^verbatim>\<open>AkimaSpline\<close> of linetools.analysis.interp is not
  among the sources. The spline is "an opaque function mapping control points to an
  evaluator": \<open>flat_spline\<close> accepts every list of control points, and its evaluator
  returns the constant 1 at every wavelength it is given.
\<close>

definition flat_evaluator :: "real list \<Rightarrow> error + real list" where
  "flat_evaluator xs = Inr (replicate (length xs) 1)"

definition flat_spline :: "point list \<Rightarrow> error + (real list \<Rightarrow> error + real list)" where
  "flat_spline cpts = Inr flat_evaluator"

definition tk0 :: toolkit where
  "tk0 = \<lparr>transData = id, AkimaSpline = flat_spline\<rparr>"

text \<open>
  Example states, and a key event whose cursor is at the given data position inside the
  spectrum axes. \<open>three_knots\<close> and \<open>snapped_knots\<close> are states as initialization leaves
  them: the first and last knot on a pixel's wavelength, one anchor pixel outside on
  each side. \<open>snapped_knots\<close> comes from knots at the wavelengths 1, 15 and 25, which
  fall between the pixels, and \<open>crossed_knots\<close> from knots at 1, 2 and 25. \<open>two_knots\<close>
  holds the two edge knots only, over a spectrum with no positive error.
  \<open>tied_knots\<close> has two knots at one wavelength, as a move onto the first wavelength
  leaves them, and \<open>tied_anchors\<close> has its only two knots at one wavelength.
\<close>

definition three_knots :: cofit where
  "three_knots =
     \<lparr>wa = [3900, 4000, 4500, 5000, 5100], fl = [1, 1, 1, 1, 1], er = [1, 1, 1, 1, 1],
      continuum = [1, 1, 1, 1, 1], contpoints = [(4000, 1), (4500, 2), (5000, 1)],
      indices = (1, 3), anchor_start = (3900, 1), anchor_end = (5100, 1),
      wmin = 4000, wmax = 5000, finished = False\<rparr>"

definition two_knots :: cofit where
  "two_knots =
     \<lparr>wa = [3900, 4000, 4500, 5000, 5100], fl = [1, 1, 1, 1, 1], er = [0, 0, 0, 0, 0],
      continuum = [1, 1, 1, 1, 1], contpoints = [(4000, 1), (5000, 9 / 10)],
      indices = (1, 3), anchor_start = (3900, 1), anchor_end = (5100, 1),
      wmin = 4000, wmax = 5000, finished = False\<rparr>"

definition tied_knots :: cofit where
  "tied_knots =
     \<lparr>wa = [0, 1, 2, 3], fl = [0, 0, 0, 0], er = [1, 1, 1, 1],
      continuum = [1, 1, 1, 1], contpoints = [(1, 5), (1, 7), (2, 0)],
      indices = (1, 2), anchor_start = (0, 1), anchor_end = (3, 1),
      wmin = 1, wmax = 2, finished = False\<rparr>"

definition tied_anchors :: cofit where
  "tied_anchors =
     \<lparr>wa = [0, 1, 2, 3], fl = [0, 0, 0, 0], er = [1, 1, 1, 1],
      continuum = [1, 1, 1, 1], contpoints = [(1, 5), (1, 7)],
      indices = (1, 1), anchor_start = (0, 1), anchor_end = (2, 1),
      wmin = 1, wmax = 1, finished = False\<rparr>"

definition snapped_knots :: cofit where
  "snapped_knots =
     \<lparr>wa = [0, 10, 20, 30, 40], fl = [1, 1, 1, 1, 1], er = [1, 1, 1, 1, 1],
      continuum = [1, 1, 1, 1, 1], contpoints = [(10, 100), (15, 0), (30, 50)],
      indices = (1, 3), anchor_start = (0, 1), anchor_end = (40, 1),
      wmin = 1, wmax = 25, finished = False\<rparr>"

definition crossed_knots :: cofit where
  "crossed_knots =
     \<lparr>wa = [0, 10, 20, 30, 40], fl = [1, 1, 1, 1, 1], er = [1, 1, 1, 1, 1],
      continuum = [1, 1, 1, 1, 1], contpoints = [(10, 3), (2, 4), (30, 5)],
      indices = (1, 3), anchor_start = (0, 1), anchor_end = (40, 1),
      wmin = 1, wmax = 25, finished = False\<rparr>"

definition at_cursor :: "string \<Rightarrow> real \<Rightarrow> real \<Rightarrow> event" where
  "at_cursor k x y =
     \<lparr>key = k, inaxes = Some MainAxes, xdata = x, ydata = y, xpix = x, ypix = y\<rparr>"

section \<open>Navigation\<close>

text \<open>
  C1 (as stated): key \<^verbatim>\<open>i\<close> inside the axes, with x-limits (4000, 5000) and the cursor
  at 4500, sets the x-limits to (4275, 4725). The handler does not: it centres a
  window of 0.275 of the old width on each side of the cursor.
\<close>

theorem zoom_in_counterexample:
  "xlim (snd (on_keypress_navigate flat_plotrange [] []
            \<lparr>xlim = (4000, 5000), ylim = (0, 1)\<rparr>
            \<lparr>key = ''i'', inaxes = Some MainAxes, xdata = 4500, ydata = 0,
              xpix = 0, ypix = 0\<rparr>))
     \<noteq> (4275, 4725)"
  by (simp add: on_keypress_navigate_def)

text \<open>
  C1 (amended): in that situation the new x-limits are (4225, 4775), that is
  \<open>(x - 0.275 * dx, x + 0.275 * dx)\<close> for the cursor \<open>x\<close> and the old width \<open>dx\<close>;
  nothing else changes and nothing is raised.
\<close>

theorem zoom_in_limits:
  assumes "key ev = ''i''" and "inaxes ev \<noteq> None"
    and "xlim ax = (4000, 5000)" and "xdata ev = 4500"
  shows "on_keypress_navigate plotrange w f ax ev = (None, ax\<lparr>xlim := (4225, 4775)\<rparr>)"
  using assms by (simp add: on_keypress_navigate_def)

theorem zoom_in_limits_witness:
  "on_keypress_navigate flat_plotrange [] []
     \<lparr>xlim = (4000, 5000), ylim = (0, 1)\<rparr>
     \<lparr>key = ''i'', inaxes = Some MainAxes, xdata = 4500, ydata = 0, xpix = 0, ypix = 0\<rparr>
   = (None, \<lparr>xlim = (4225, 4775), ylim = (0, 1)\<rparr>)"
  using zoom_in_limits [of "\<lparr>key = ''i'', inaxes = Some MainAxes, xdata = 4500, ydata = 0,
      xpix = 0, ypix = 0\<rparr>" "\<lparr>xlim = (4000, 5000), ylim = (0, 1)\<rparr>" flat_plotrange "[]" "[]"]
  by simp

section \<open>Auxiliary facts\<close>

subsection \<open>What update leaves alone\<close>

lemma update_contpoints: "contpoints (snd (update tk s)) = contpoints s"
  by (simp add: update_def Let_def split: sum.splits)

lemma update_frame:
  "snd (update tk s) = s\<lparr>continuum := continuum (snd (update tk s))\<rparr>"
  by (simp add: update_def Let_def split: sum.splits)

lemma update_Inr_contpoints:
  "update tk s = (None, s') \<Longrightarrow> contpoints s' = contpoints s"
  using update_contpoints [of tk s] by simp

subsection \<open>Slices and argmin\<close>

lemma py_slice_interior: "py_slice cp 1 (- 1) = butlast (tl cp)"
  by (cases cp) (auto simp: py_slice_def slice_index_def Let_def butlast_conv_take min_def)

lemma argmin_less: "vs \<noteq> [] \<Longrightarrow> argmin vs < length vs"
  by (induction vs rule: argmin.induct) (auto simp: Let_def)

lemma argmin_le: "j < length vs \<Longrightarrow> vs ! argmin vs \<le> vs ! j"
proof (induction vs arbitrary: j rule: argmin.induct)
  case 1
  then show ?case by simp
next
  case (2 v)
  then show ?case by simp
next
  case (3 v u us)
  let ?k = "argmin (u # us)"
  show ?case
  proof (cases "v \<le> (u # us) ! ?k")
    case True
    then have a: "argmin (v # u # us) = 0" by (simp add: Let_def)
    show ?thesis
    proof (cases j)
      case 0
      then show ?thesis using a by simp
    next
      case (Suc i)
      then have "i < length (u # us)" using 3(2) by simp
      then have "(u # us) ! ?k \<le> (u # us) ! i" by (rule 3(1))
      then show ?thesis using a True Suc by simp
    qed
  next
    case False
    then have a: "argmin (v # u # us) = Suc ?k" by (simp add: Let_def)
    show ?thesis
    proof (cases j)
      case 0
      then show ?thesis using a False by simp
    next
      case (Suc i)
      then have "i < length (u # us)" using 3(2) by simp
      then have "(u # us) ! ?k \<le> (u # us) ! i" by (rule 3(1))
      then show ?thesis using a Suc by simp
    qed
  qed
qed

text \<open>Ties go to the first index: every earlier entry is strictly larger.\<close>

lemma argmin_first: "j < argmin vs \<Longrightarrow> vs ! argmin vs < vs ! j"
proof (induction vs arbitrary: j rule: argmin.induct)
  case 1
  then show ?case by simp
next
  case (2 v)
  then show ?case by simp
next
  case (3 v u us)
  let ?k = "argmin (u # us)"
  show ?case
  proof (cases "v \<le> (u # us) ! ?k")
    case True
    then show ?thesis using 3(2) by (simp add: Let_def)
  next
    case False
    then have a: "argmin (v # u # us) = Suc ?k" by (simp add: Let_def)
    show ?thesis
    proof (cases j)
      case 0
      then show ?thesis using a False by simp
    next
      case (Suc i)
      then have "i < ?k" using 3(2) a by simp
      then have "(u # us) ! ?k < (u # us) ! i" by (rule 3(1))
      then show ?thesis using a Suc by simp
    qed
  qed
qed

lemma hypot_le_iff: "hypot a b \<le> hypot c d \<longleftrightarrow> a * a + b * b \<le> c * c + d * d"
  by (simp add: hypot_def power2_eq_square)

subsection \<open>The nearest knot\<close>

lemma nearest_less: "cps \<noteq> [] \<Longrightarrow> nearest tk cps ev < length cps"
  using argmin_less [of "sep tk cps ev"] by (simp add: nearest_def sep_def)

lemma nearest_minimal:
  assumes "j < length cps"
  shows "hypot (xpix ev - fst (transData tk (cps ! nearest tk cps ev)))
               (ypix ev - snd (transData tk (cps ! nearest tk cps ev)))
         \<le> hypot (xpix ev - fst (transData tk (cps ! j))) (ypix ev - snd (transData tk (cps ! j)))"
proof -
  have ne: "cps \<noteq> []" using assms by auto
  have "sep tk cps ev ! argmin (sep tk cps ev) \<le> sep tk cps ev ! j"
    using assms by (intro argmin_le) (simp add: sep_def)
  then show ?thesis
    using assms nearest_less [OF ne, of tk ev] by (simp add: sep_def nearest_def)
qed

text \<open>
  No earlier entry of the list equals the nearest knot, so \<^verbatim>\<open>list.remove\<close> of the
  nearest knot's value deletes the entry at the nearest knot's own index.
\<close>

lemma nearest_not_earlier:
  assumes "cps \<noteq> []"
  shows "cps ! nearest tk cps ev \<notin> set (take (nearest tk cps ev) cps)"
proof
  let ?k = "nearest tk cps ev"
  assume "cps ! ?k \<in> set (take ?k cps)"
  then obtain j where j: "j < ?k" "j < length cps" "cps ! j = cps ! ?k"
    by (auto simp: in_set_conv_nth)
  have k: "?k < length cps" using assms by (rule nearest_less)
  have "sep tk cps ev ! argmin (sep tk cps ev) < sep tk cps ev ! j"
    using j(1) by (intro argmin_first) (simp add: nearest_def)
  then show False using j k by (simp add: sep_def nearest_def)
qed

lemma remove1_nth_first:
  assumes "i < length xs" and "xs ! i \<notin> set (take i xs)"
  shows "remove1 (xs ! i) xs = take i xs @ drop (Suc i) xs"
proof -
  have "xs = take i xs @ xs ! i # drop (Suc i) xs"
    using assms(1) by (rule id_take_nth_drop)
  then have "remove1 (xs ! i) xs = remove1 (xs ! i) (take i xs @ xs ! i # drop (Suc i) xs)"
    by simp
  also have "\<dots> = take i xs @ remove1 (xs ! i) (xs ! i # drop (Suc i) xs)"
    using assms(2) by (simp add: remove1_append)
  finally show ?thesis by simp
qed

lemma nearest_three: "nearest tk0 [(4000, 1), (4500, 2), (5000, 1)] (at_cursor k 4500 2) = 1"
  by (simp add: nearest_def sep_def at_cursor_def tk0_def hypot_le_iff Let_def)

subsection \<open>Which branch a key takes\<close>

lemma on_keypress_plus: "key ev = ''+'' \<Longrightarrow> on_keypress tk s ev = double_knots tk s"
  by (simp add: on_keypress_def Let_def)

lemma on_keypress_underscore: "key ev = ''_'' \<Longrightarrow> on_keypress tk s ev = halve_knots tk s"
  by (simp add: on_keypress_def Let_def)

lemma on_keypress_add:
  "key ev = ''a'' \<or> key ev = ''3'' \<Longrightarrow> inaxes ev = Some MainAxes \<Longrightarrow>
   on_keypress tk s ev = add_knot tk s ev"
  by (auto simp: on_keypress_def)

lemma on_keypress_add_median:
  "key ev = ''A'' \<Longrightarrow> inaxes ev = Some MainAxes \<Longrightarrow>
   on_keypress tk s ev = add_knot_median tk s ev"
  by (auto simp: on_keypress_def)

lemma on_keypress_delete:
  "key ev = ''d'' \<or> key ev = ''4'' \<Longrightarrow> inaxes ev = Some MainAxes \<Longrightarrow>
   on_keypress tk s ev = delete_knot tk s ev"
  by (auto simp: on_keypress_def)

lemma on_keypress_move:
  "key ev = ''m'' \<Longrightarrow> inaxes ev = Some MainAxes \<Longrightarrow>
   on_keypress tk s ev = move_knot tk s ev"
  by (auto simp: on_keypress_def)

lemma on_keypress_move_median:
  "key ev = ''M'' \<Longrightarrow> inaxes ev = Some MainAxes \<Longrightarrow>
   on_keypress tk s ev = move_knot_median tk s ev"
  by (auto simp: on_keypress_def)

lemma on_keypress_elsewhere:
  "key ev \<noteq> ''q'' \<Longrightarrow> key ev \<noteq> ''+'' \<Longrightarrow> key ev \<noteq> ''_'' \<Longrightarrow> inaxes ev \<noteq> Some MainAxes \<Longrightarrow>
   on_keypress tk s ev = (None, s)"
  by (simp add: on_keypress_def)

subsection \<open>The knot list after each edit\<close>

lemma delete_knot_contpoints:
  "contpoints (snd (delete_knot tk s ev)) =
     (if length (contpoints s) < 3 \<or> nearest tk (contpoints s) ev = 0
         \<or> nearest tk (contpoints s) ev = length (contpoints s) - 1
      then contpoints s
      else take (nearest tk (contpoints s) ev) (contpoints s)
           @ drop (Suc (nearest tk (contpoints s) ev)) (contpoints s))"
proof (cases "contpoints s = []")
  case True
  then show ?thesis by (simp add: delete_knot_def)
next
  case False
  then show ?thesis
    using remove1_nth_first [OF nearest_less [OF False] nearest_not_earlier [OF False], of tk ev]
    by (simp add: delete_knot_def Let_def update_contpoints sep_def)
qed

lemma double_knots_contpoints:
  "contpoints s \<noteq> [] \<Longrightarrow>
   contpoints (snd (double_knots tk s)) =
     sort (contpoints s @
       zip (midpoints (map fst (contpoints s)))
           (map (\<lambda>x. local_median (wa s) (fl s) (er s) x 10
                         (interp x (map fst (contpoints s)) (map snd (contpoints s))))
                (midpoints (map fst (contpoints s)))))"
  by (simp add: double_knots_def Let_def update_contpoints)



lemma sorted_map_fst: "sorted (cps :: point list) \<Longrightarrow> sorted (map fst cps)"
  by (induction cps) (auto simp: less_eq_prod_def)

text \<open>
  With pairwise distinct wavelengths, sorted by wavelength and sorted as tuples are the
  same.
\<close>

lemma sorted_fst_distinct:
  "sorted (map fst (cps :: point list)) \<Longrightarrow> distinct (map fst cps) \<Longrightarrow> sorted cps"
proof (induction cps)
  case Nil
  then show ?case by simp
next
  case (Cons a cps)
  have "\<forall>q\<in>set cps. a \<le> q"
  proof
    fix q assume q: "q \<in> set cps"
    then have "fst a \<le> fst q" using Cons.prems(1) by simp
    moreover have "fst a \<noteq> fst q" using Cons.prems(2) q by auto
    ultimately show "a \<le> q" by (simp add: less_eq_prod_def)
  qed
  then show ?case using Cons by simp
qed

subsection \<open>Halving, and the invariant under each edit\<close>

lemma sorted_fst_sort: "sorted (map fst (sort (cps :: point list)))"
  by (rule sorted_map_fst) simp

lemma set_every_second: "set (every_second xs) \<subseteq> set xs"
  by (induction xs rule: every_second.induct) auto

lemma length_every_second: "length (every_second xs) = length xs div 2"
  by (induction xs rule: every_second.induct) auto

lemma sorted_map_every_second:
  "sorted (map f xs) \<Longrightarrow> sorted (map f (every_second xs))"
proof (induction xs rule: every_second.induct)
  case (1 a b xs)
  have "set (every_second xs) \<subseteq> set xs" by (rule set_every_second)
  then show ?case using 1 by auto
qed simp_all

lemma first_mid_last:
  assumes "2 \<le> length xs"
  shows "xs = hd xs # butlast (tl xs) @ [last xs]"
proof (cases xs)
  case Nil
  then show ?thesis using assms by simp
next
  case (Cons a ys)
  then have "ys \<noteq> []" using assms by auto
  then show ?thesis using Cons by simp
qed

lemma halve_knots_contpoints:
  "contpoints s \<noteq> [] \<Longrightarrow>
   contpoints (snd (halve_knots tk s)) =
     hd (contpoints s) # every_second (butlast (tl (contpoints s))) @ [last (contpoints s)]"
  by (simp add: halve_knots_def Let_def update_contpoints py_slice_interior)

lemma halve_sorted:
  assumes "sorted (map fst cps)" and "2 \<le> length cps"
  shows "sorted (map fst (hd cps # every_second (butlast (tl cps)) @ [last cps]))"
proof -
  let ?mid = "butlast (tl cps)"
  have eq: "cps = hd cps # ?mid @ [last cps]" using assms(2) by (rule first_mid_last)
  have s: "sorted (map fst (hd cps # ?mid @ [last cps]))" using assms(1) eq by simp
  have sub: "set (every_second ?mid) \<subseteq> set ?mid" by (rule set_every_second)
  have lo: "\<forall>p\<in>set ?mid. fst (hd cps) \<le> fst p"
    and hi: "\<forall>p\<in>set ?mid. fst p \<le> fst (last cps)"
    and ends: "fst (hd cps) \<le> fst (last cps)"
    and mid: "sorted (map fst ?mid)"
    using s by (simp_all add: sorted_append)
  have m: "sorted (map fst (every_second ?mid))"
    using mid by (rule sorted_map_every_second)
  show ?thesis using sub lo hi ends m by (auto simp: sorted_append)
qed

lemma move_knot_contpoints:
  "contpoints (snd (move_knot tk s ev)) = contpoints s
   \<or> (\<exists>i p. contpoints (snd (move_knot tk s ev)) = sort ((contpoints s)[i := p]))"
  by (auto simp: move_knot_def Let_def update_contpoints)

lemma move_knot_median_contpoints:
  "contpoints (snd (move_knot_median tk s ev)) = contpoints s
   \<or> (\<exists>i p. contpoints (snd (move_knot_median tk s ev)) = sort ((contpoints s)[i := p]))"
  by (auto simp: move_knot_median_def Let_def update_contpoints)

lemma add_knot_cases:
  "contpoints (snd (add_knot tk s ev)) = contpoints s
   \<or> (\<exists>p. contpoints (snd (add_knot tk s ev)) = sort (contpoints s @ [p]))"
  by (auto simp: add_knot_def Let_def update_contpoints)

lemma add_knot_median_cases:
  "contpoints (snd (add_knot_median tk s ev)) = contpoints s
   \<or> (\<exists>p. contpoints (snd (add_knot_median tk s ev)) = sort (contpoints s @ [p]))"
  by (auto simp: add_knot_median_def Let_def update_contpoints)

lemma delete_knot_cases:
  "contpoints (snd (delete_knot tk s ev)) = contpoints s
   \<or> (3 \<le> length (contpoints s)
       \<and> (\<exists>p \<in> set (contpoints s). contpoints (snd (delete_knot tk s ev)) = remove1 p (contpoints s)))"
proof (cases "contpoints s = []")
  case True
  then show ?thesis by (simp add: delete_knot_def)
next
  case False
  then have "contpoints s ! nearest tk (contpoints s) ev \<in> set (contpoints s)"
    by (intro nth_mem nearest_less)
  then show ?thesis by (auto simp: delete_knot_def Let_def update_contpoints)
qed

lemma knots_ok_sort_update: "knots_ok cps \<Longrightarrow> knots_ok (sort (cps[i := p]))"
  by (simp add: knots_ok_def sorted_fst_sort)

lemma knots_ok_sort_snoc: "knots_ok cps \<Longrightarrow> knots_ok (sort (cps @ [p]))"
  by (simp add: knots_ok_def sorted_fst_sort)

lemma knots_ok_sort_append: "knots_ok cps \<Longrightarrow> knots_ok (sort (cps @ new))"
  by (simp add: knots_ok_def sorted_fst_sort)

lemma knots_ok_remove1:
  "knots_ok cps \<Longrightarrow> 3 \<le> length cps \<Longrightarrow> p \<in> set cps \<Longrightarrow> knots_ok (remove1 p cps)"
  by (simp add: knots_ok_def sorted_map_remove1 length_remove1)

lemma knots_ok_halve:
  assumes "knots_ok cps"
  shows "knots_ok (hd cps # every_second (butlast (tl cps)) @ [last cps])"
proof -
  have "sorted (map fst (hd cps # every_second (butlast (tl cps)) @ [last cps]))"
    using assms by (intro halve_sorted) (simp_all add: knots_ok_def)
  then show ?thesis unfolding knots_ok_def by simp
qed

lemma knots_ok_nonempty: "knots_ok cps \<Longrightarrow> cps \<noteq> []"
  by (auto simp: knots_ok_def)

subsection \<open>Midpoints and the ends of a sorted list\<close>

lemma length_midpoints: "length (midpoints xc) = length xc - 1"
  by (simp add: midpoints_def diff_def)

lemma nth_midpoints:
  assumes "i < length xc - 1"
  shows "midpoints xc ! i = xc ! i + 0.5 * (xc ! Suc i - xc ! i)"
  using assms by (simp add: midpoints_def diff_def nth_butlast nth_tl)

lemma mid_strict:
  fixes a b :: real
  assumes "a < b"
  shows "a < a + 0.5 * (b - a)" and "a + 0.5 * (b - a) < b"
  using assms by (simp_all add: field_simps)

lemma mid_weak:
  fixes a b :: real
  assumes "a \<le> b"
  shows "a \<le> a + 0.5 * (b - a)" and "a + 0.5 * (b - a) \<le> b"
  using assms by (simp_all add: field_simps)

lemma midpoints_above_first:
  assumes "sorted xc" and "2 \<le> length xc" and "xc ! 0 < xc ! 1" and "m \<in> set (midpoints xc)"
  shows "xc ! 0 < m"
proof -
  obtain i where i: "i < length xc - 1" and m: "m = midpoints xc ! i"
    using assms(4) by (auto simp: in_set_conv_nth length_midpoints)
  have mi: "m = xc ! i + 0.5 * (xc ! Suc i - xc ! i)" using i m by (simp add: nth_midpoints)
  show ?thesis
  proof (cases i)
    case 0
    then have "m = xc ! 0 + 0.5 * (xc ! 1 - xc ! 0)" using mi by simp
    then show ?thesis using mid_strict(1) [OF assms(3)] by simp
  next
    case (Suc k)
    have "xc ! 1 \<le> xc ! i" using assms(1) i Suc by (intro sorted_nth_mono) auto
    moreover have "xc ! i \<le> xc ! i + 0.5 * (xc ! Suc i - xc ! i)"
      using assms(1) i by (intro mid_weak(1) sorted_nth_mono) auto
    ultimately show ?thesis using mi assms(3) by linarith
  qed
qed

lemma midpoints_below_last:
  assumes "sorted xc" and "2 \<le> length xc"
    and "xc ! (length xc - 2) < xc ! (length xc - 1)" and "m \<in> set (midpoints xc)"
  shows "m < xc ! (length xc - 1)"
proof -
  obtain i where i: "i < length xc - 1" and m: "m = midpoints xc ! i"
    using assms(4) by (auto simp: in_set_conv_nth length_midpoints)
  have mi: "m = xc ! i + 0.5 * (xc ! Suc i - xc ! i)" using i m by (simp add: nth_midpoints)
  show ?thesis
  proof (cases "i = length xc - 2")
    case True
    then have "Suc i = length xc - 1" using assms(2) by simp
    then have "m = xc ! (length xc - 2) + 0.5 * (xc ! (length xc - 1) - xc ! (length xc - 2))"
      using mi True by simp
    then show ?thesis using mid_strict(2) [OF assms(3)] by simp
  next
    case False
    then have "Suc i \<le> length xc - 2" using i by simp
    then have "xc ! Suc i \<le> xc ! (length xc - 2)"
      using assms(1,2) by (intro sorted_nth_mono) auto
    moreover have "xc ! i + 0.5 * (xc ! Suc i - xc ! i) \<le> xc ! Suc i"
      using assms(1) i by (intro mid_weak(2) sorted_nth_mono) auto
    ultimately show ?thesis using mi assms(3) by linarith
  qed
qed

lemma hd_sort_least:
  fixes p :: "'a :: linorder"
  assumes "p \<in> set ys" and "\<forall>q\<in>set ys. p \<le> q"
  shows "hd (sort ys) = p"
proof -
  have ne: "sort ys \<noteq> []" using assms(1) by (metis empty_iff empty_set set_sort)
  have "hd (sort ys) \<in> set ys" using hd_in_set [OF ne] by simp
  then have a: "p \<le> hd (sort ys)" using assms(2) by blast
  have "sorted (sort ys)" by simp
  moreover have "p \<in> set (sort ys)" using assms(1) by simp
  ultimately have "hd (sort ys) \<le> p"
    using ne by (cases "sort ys") auto
  then show ?thesis using a by simp
qed

lemma last_sort_greatest:
  fixes p :: "'a :: linorder"
  assumes "p \<in> set ys" and "\<forall>q\<in>set ys. q \<le> p"
  shows "last (sort ys) = p"
proof -
  have ne: "sort ys \<noteq> []" using assms(1) by (metis empty_iff empty_set set_sort)
  have "last (sort ys) \<in> set ys" using last_in_set [OF ne] by simp
  then have a: "last (sort ys) \<le> p" using assms(2) by blast
  have s: "sorted (sort ys)" by simp
  have "p \<in> set (sort ys)" using assms(1) by simp
  then obtain i where i: "i < length (sort ys)" "sort ys ! i = p"
    by (metis in_set_conv_nth)
  have "sort ys ! i \<le> sort ys ! (length (sort ys) - 1)"
    using s i(1) by (intro sorted_nth_mono) auto
  then have "p \<le> last (sort ys)" using i ne by (simp add: last_conv_nth)
  then show ?thesis using a by simp
qed

lemma first_below_others:
  fixes cps :: "point list"
  assumes "sorted (map fst cps)" and "2 \<le> length cps" and "fst (cps ! 0) < fst (cps ! 1)"
    and "q \<in> set cps"
  shows "cps ! 0 \<le> q"
proof -
  obtain i where i: "i < length cps" "q = cps ! i"
    using assms(4) by (metis in_set_conv_nth)
  show ?thesis
  proof (cases i)
    case 0
    then show ?thesis using i by simp
  next
    case (Suc k)
    then have "map fst cps ! 1 \<le> map fst cps ! i"
      using assms(1) i by (intro sorted_nth_mono) auto
    then have "fst (cps ! 0) < fst q" using assms(2,3) i by simp
    then show ?thesis by (simp add: less_eq_prod_def)
  qed
qed

lemma last_above_others:
  fixes cps :: "point list"
  assumes "sorted (map fst cps)" and "2 \<le> length cps"
    and "fst (cps ! (length cps - 2)) < fst (cps ! (length cps - 1))"
    and "q \<in> set cps"
  shows "q \<le> cps ! (length cps - 1)"
proof -
  obtain i where i: "i < length cps" "q = cps ! i"
    using assms(4) by (metis in_set_conv_nth)
  show ?thesis
  proof (cases "i = length cps - 1")
    case True
    then show ?thesis using i by simp
  next
    case False
    then have "i \<le> length cps - 2" using i by simp
    then have "map fst cps ! i \<le> map fst cps ! (length cps - 2)"
      using assms(1,2) by (intro sorted_nth_mono) auto
    then have "fst q < fst (cps ! (length cps - 1))" using assms(2,3) i by simp
    then show ?thesis by (simp add: less_eq_prod_def)
  qed
qed

lemma fst_in_zip: "q \<in> set (zip xs ys) \<Longrightarrow> fst q \<in> set xs"
  using set_zip_leftD [of "fst q" "snd q" xs ys] by simp

lemma doubled_ends:
  fixes cps :: "point list"
  assumes "sorted (map fst cps)" and "2 \<le> length cps"
    and "fst (cps ! 0) < fst (cps ! 1)"
    and "fst (cps ! (length cps - 2)) < fst (cps ! (length cps - 1))"
    and "length ys = length (midpoints (map fst cps))"
  shows "hd (sort (cps @ zip (midpoints (map fst cps)) ys)) = hd cps"
    and "last (sort (cps @ zip (midpoints (map fst cps)) ys)) = last cps"
proof -
  let ?xc = "map fst cps"
  let ?new = "zip (midpoints ?xc) ys"
  have ne: "cps \<noteq> []" using assms(2) by auto
  have h: "hd cps = cps ! 0" using ne by (simp add: hd_conv_nth)
  have l: "last cps = cps ! (length cps - 1)" using ne by (simp add: last_conv_nth)
  have pos: "0 < length cps" "1 < length cps" "length cps - 2 < length cps"
    "length cps - 1 < length cps"
    using assms(2) by auto
  have x0: "?xc ! 0 < ?xc ! 1" using assms(3) pos by (simp add: nth_map)
  have xl: "?xc ! (length ?xc - 2) < ?xc ! (length ?xc - 1)"
    using assms(4) pos by (simp add: nth_map)
  have len: "2 \<le> length ?xc" using assms(2) by simp
  have lo: "\<forall>q\<in>set (cps @ ?new). cps ! 0 \<le> q"
  proof
    fix q assume "q \<in> set (cps @ ?new)"
    then consider "q \<in> set cps" | "q \<in> set ?new" by auto
    then show "cps ! 0 \<le> q"
    proof cases
      case 1
      then show ?thesis by (rule first_below_others [OF assms(1,2,3)])
    next
      case 2
      then have "fst q \<in> set (midpoints ?xc)" by (rule fst_in_zip)
      then have "?xc ! 0 < fst q" by (rule midpoints_above_first [OF assms(1) len x0])
      then have "fst (cps ! 0) < fst q" using pos(1) by (simp add: nth_map)
      then show ?thesis by (simp add: less_eq_prod_def)
    qed
  qed
  have hi: "\<forall>q\<in>set (cps @ ?new). q \<le> cps ! (length cps - 1)"
  proof
    fix q assume "q \<in> set (cps @ ?new)"
    then consider "q \<in> set cps" | "q \<in> set ?new" by auto
    then show "q \<le> cps ! (length cps - 1)"
    proof cases
      case 1
      then show ?thesis by (rule last_above_others [OF assms(1,2,4)])
    next
      case 2
      then have "fst q \<in> set (midpoints ?xc)" by (rule fst_in_zip)
      then have "fst q < ?xc ! (length ?xc - 1)"
        by (rule midpoints_below_last [OF assms(1) len xl])
      then have "fst q < fst (cps ! (length cps - 1))" using pos(4) by (simp add: nth_map)
      then show ?thesis by (simp add: less_eq_prod_def)
    qed
  qed
  have "cps ! 0 \<in> set cps" using pos(1) by (rule nth_mem)
  then have in0: "cps ! 0 \<in> set (cps @ ?new)" by simp
  have "cps ! (length cps - 1) \<in> set cps" using pos(4) by (rule nth_mem)
  then have inl: "cps ! (length cps - 1) \<in> set (cps @ ?new)" by simp
  show "hd (sort (cps @ ?new)) = hd cps"
    unfolding h using in0 lo by (rule hd_sort_least)
  show "last (sort (cps @ ?new)) = last cps"
    unfolding l using inl hi by (rule last_sort_greatest)
qed

subsection \<open>Worked evaluations\<close>

lemma searchsorted_4500: "searchsorted [3900, 4000, 4500, 5000, 5100] 4500 = 2"
  by (simp add: searchsorted_def)

lemma py_slice_five: "py_slice [a, b, c, d, e] (2 - 10) (2 + 10) = [a, b, c, d, e]"
  by (simp add: py_slice_def slice_index_def)

lemma two_knots_no_median:
  "good_flux (wa two_knots) (fl two_knots) (er two_knots) 4500 10 = []"
  unfolding two_knots_def cofit.simps good_flux_def searchsorted_4500 Let_def py_slice_five
  by simp

lemma py_slice_four: "py_slice [a, b, c, d] (- 9) 11 = [a, b, c, d]"
  "py_slice [a, b, c, d] (- 8) 12 = [a, b, c, d]"
  by (simp_all add: py_slice_def slice_index_def)

lemma median_zeros: "median [0, 0, 0, 0] = 0"
  by (simp add: median_def Let_def)

lemma tied_median_1: "local_median [0, 1, 2, 3] [0, 0, 0, 0] [1, 1, 1, 1] 1 10 d = 0"
proof -
  have s: "searchsorted [0, 1, 2, 3] 1 = 1" by (simp add: searchsorted_def)
  have "good_flux [0, 1, 2, 3] [0, 0, 0, 0] [1, 1, 1, 1] 1 10 = [0, 0, 0, 0]"
    unfolding good_flux_def s Let_def by (simp add: py_slice_four)
  then show ?thesis by (simp add: local_median_def median_zeros)
qed

lemma tied_median_2: "local_median [0, 1, 2, 3] [0, 0, 0, 0] [1, 1, 1, 1] (3 / 2) 10 d = 0"
proof -
  have s: "searchsorted [0, 1, 2, 3] (3 / 2) = 2" by (simp add: searchsorted_def)
  have "good_flux [0, 1, 2, 3] [0, 0, 0, 0] [1, 1, 1, 1] (3 / 2) 10 = [0, 0, 0, 0]"
    unfolding good_flux_def s Let_def by (simp add: py_slice_four)
  then show ?thesis by (simp add: local_median_def median_zeros)
qed

lemma tied_doubled:
  "contpoints (snd (on_keypress tk0 tied_knots (at_cursor ''+'' 0 0)))
     = [(1, 0), (1, 5), (1, 7), (3 / 2, 0), (2, 0)]"
proof -
  have m: "midpoints [1, 1, 2] = [1, 3 / 2]" by (simp add: midpoints_def diff_def)
  have "contpoints (snd (double_knots tk0 tied_knots))
          = sort ([(1, 5), (1, 7), (2, 0)] @ zip [1, 3 / 2] [0, 0])"
    by (simp add: double_knots_contpoints tied_knots_def m tied_median_1 tied_median_2)
  then show ?thesis by (simp add: on_keypress_plus at_cursor_def)
qed

lemma tied_anchors_doubled:
  "contpoints (snd (on_keypress tk0 tied_anchors (at_cursor ''+'' 0 0)))
     = [(1, 0), (1, 5), (1, 7)]"
proof -
  have m: "midpoints [1, 1] = [1]" by (simp add: midpoints_def diff_def)
  have "contpoints (snd (double_knots tk0 tied_anchors))
          = sort ([(1, 5), (1, 7)] @ zip [1] [0])"
    by (simp add: double_knots_contpoints tied_anchors_def m tied_median_1)
  then show ?thesis by (simp add: on_keypress_plus at_cursor_def)
qed

lemma init_snapped:
  "InteractiveCoFit_init tk0 [0, 10, 20, 30, 40] [1, 1, 1, 1, 1] [1, 1, 1, 1, 1]
     [(1, 100), (15, 0), (25, 50)] [1, 1, 1, 1, 1] = Inr snapped_knots"
  by (simp add: InteractiveCoFit_init_def searchsorted_def getitem_def Let_def update_def
      tk0_def flat_spline_def assign_slice_def slice_index_def py_slice_def flat_evaluator_def
      snapped_knots_def)

subsection \<open>Initialization\<close>

lemma searchsorted_at_or_beyond_last:
  assumes "sorted_wrt (<) w" and "w \<noteq> []" and "last w \<le> v"
  shows "searchsorted w v = int (length w) - 1 \<or> searchsorted w v = int (length w)"
proof (cases "last w < v")
  case True
  have "\<forall>x\<in>set w. x < v"
  proof
    fix x assume "x \<in> set w"
    then obtain i where i: "i < length w" "w ! i = x" by (metis in_set_conv_nth)
    have "sorted w" using assms(1) by (rule strict_sorted_imp_sorted)
    then have "w ! i \<le> w ! (length w - 1)" using i(1) by (intro sorted_nth_mono) auto
    then show "x < v" using i True assms(2) by (simp add: last_conv_nth)
  qed
  then have tw: "takeWhile (\<lambda>x. x < v) w = w" by (simp add: takeWhile_eq_all_conv)
  show ?thesis unfolding searchsorted_def tw by simp
next
  case False
  then have v: "v = last w" using assms(3) by simp
  have w: "w = butlast w @ [last w]" using assms(2) by simp
  have "sorted_wrt (<) (butlast w @ [last w])" using assms(1) w by simp
  then have b: "\<forall>x\<in>set (butlast w). x < v" using v by (simp add: sorted_wrt_append)
  have "takeWhile (\<lambda>x. x < v) (butlast w @ [last w]) = butlast w @ takeWhile (\<lambda>x. x < v) [last w]"
    using b by (intro takeWhile_append2) simp
  then have tw: "takeWhile (\<lambda>x. x < v) w = butlast w" using w v by simp
  have "int (length (butlast w)) = int (length w) - 1" using assms(2) by (cases w) auto
  then show ?thesis unfolding searchsorted_def tw by simp
qed

lemma getitem_length: "getitem w (int (length w)) = Inl IndexError"
  by (simp add: getitem_def)

lemma getitem_error: "getitem a i = Inl err \<Longrightarrow> err = IndexError"
  by (simp add: getitem_def Let_def split: if_splits)

lemma init_at_least_three:
  assumes "InteractiveCoFit_init tk w f e cps0 co = Inr s"
  shows "3 \<le> length (contpoints s)"
  using assms
  by (auto simp: InteractiveCoFit_init_def Let_def update_def
        split: if_splits sum.splits prod.splits option.splits)

lemma getitem_Inr: "getitem a i = Inr v \<Longrightarrow> 0 \<le> i \<Longrightarrow> nat i < length a \<and> v = a ! nat i"
  by (auto simp: getitem_def Let_def split: if_splits)

lemma searchsorted_not_below:
  assumes "nat (searchsorted w v) < length w"
  shows "v \<le> w ! nat (searchsorted w v)"
  using nth_length_takeWhile [of "\<lambda>x. x < v" w] assms by (simp add: searchsorted_def)

lemma searchsorted_nonneg: "0 \<le> searchsorted w v"
  by (simp add: searchsorted_def)

lemma init_shape:
  assumes "InteractiveCoFit_init tk w f e cps0 co = Inr s"
  shows "\<exists>w1 w2 y1 y2. sort cps0 \<noteq> []
           \<and> contpoints s = ((sort cps0)[0 := (w1, y1)])[length (sort cps0) - 1 := (w2, y2)]
           \<and> fst (last (sort cps0)) \<le> w2"
proof -
  let ?cps = "sort cps0"
  let ?k2 = "searchsorted w (fst (last ?cps))"
  let ?i2 = "if ?k2 = int (length w) - 1 \<or> ?k2 < 0 then int (length w) else ?k2"
  have ne: "?cps \<noteq> []" using assms by (auto simp: InteractiveCoFit_init_def Let_def)
  have "\<exists>w1 w2. getitem w ?i2 = Inr w2
          \<and> contpoints s = (?cps[0 := (w1, snd (hd ?cps))])
               [length (?cps[0 := (w1, snd (hd ?cps))]) - 1
                  := (w2, snd (last (?cps[0 := (w1, snd (hd ?cps))])))]"
    using assms ne
    by (auto simp: InteractiveCoFit_init_def Let_def
          split: sum.splits prod.splits option.splits dest!: update_Inr_contpoints)
  then obtain w1 w2 where g2: "getitem w ?i2 = Inr w2"
    and s0: "contpoints s = (?cps[0 := (w1, snd (hd ?cps))])
               [length (?cps[0 := (w1, snd (hd ?cps))]) - 1
                  := (w2, snd (last (?cps[0 := (w1, snd (hd ?cps))])))]"
    by blast
  have i2: "?i2 = ?k2"
    using g2 getitem_length [of w] by (auto split: if_splits)
  have "nat ?k2 < length w \<and> w2 = w ! nat ?k2"
    using g2 i2 searchsorted_nonneg [of w "fst (last ?cps)"] getitem_Inr [of w ?k2 w2] by simp
  then have "fst (last ?cps) \<le> w2" using searchsorted_not_below [of w "fst (last ?cps)"] by simp
  then show ?thesis using ne s0 by auto
qed

subsection \<open>The ends of the list under deletes and moves\<close>

lemma sorted_update_ends:
  fixes cps :: "point list"
  assumes "sorted cps" and "0 < i" and "i < length cps - 1"
    and "fst (hd cps) < fst p" and "fst p < fst (last cps)"
  shows "hd (sort (cps[i := p])) = hd cps" and "last (sort (cps[i := p])) = last cps"
proof -
  have ne: "cps \<noteq> []" using assms(3) by auto
  have h: "hd cps = cps ! 0" using ne by (simp add: hd_conv_nth)
  have l: "last cps = cps ! (length cps - 1)" using ne by (simp add: last_conv_nth)
  have in0: "hd cps \<in> set (cps[i := p])"
    using assms(2,3) ne unfolding h by (metis length_greater_0_conv length_list_update
        nth_list_update_neq nth_mem not_less_iff_gr_or_eq)
  have inl: "last cps \<in> set (cps[i := p])"
  proof -
    have "cps[i := p] ! (length cps - 1) = cps ! (length cps - 1)"
      using assms(3) by simp
    moreover have "length cps - 1 < length (cps[i := p])" using ne by simp
    ultimately show ?thesis unfolding l by (metis nth_mem)
  qed
  have lo: "\<forall>q\<in>set (cps[i := p]). hd cps \<le> q"
  proof
    fix q assume "q \<in> set (cps[i := p])"
    then have "q = p \<or> q \<in> set cps" using set_update_subset_insert [of cps i p] by auto
    then show "hd cps \<le> q"
    proof
      assume "q = p"
      then show ?thesis using assms(4) by (simp add: less_eq_prod_def)
    next
      assume "q \<in> set cps"
      then obtain j where j: "j < length cps" "cps ! j = q" by (metis in_set_conv_nth)
      have "cps ! 0 \<le> cps ! j" using assms(1) j(1) by (intro sorted_nth_mono) auto
      then show ?thesis using h j by simp
    qed
  qed
  have hi: "\<forall>q\<in>set (cps[i := p]). q \<le> last cps"
  proof
    fix q assume "q \<in> set (cps[i := p])"
    then have "q = p \<or> q \<in> set cps" using set_update_subset_insert [of cps i p] by auto
    then show "q \<le> last cps"
    proof
      assume "q = p"
      then show ?thesis using assms(5) by (simp add: less_eq_prod_def)
    next
      assume "q \<in> set cps"
      then obtain j where j: "j < length cps" "cps ! j = q" by (metis in_set_conv_nth)
      have "cps ! j \<le> cps ! (length cps - 1)"
        using assms(1) j(1) by (intro sorted_nth_mono) auto
      then show ?thesis using l j by simp
    qed
  qed
  show "hd (sort (cps[i := p])) = hd cps" using in0 lo by (rule hd_sort_least)
  show "last (sort (cps[i := p])) = last cps" using inl hi by (rule last_sort_greatest)
qed

lemma delete_move_keeps_sorted:
  assumes "sorted (contpoints s)"
    and "key ev = ''d'' \<or> key ev = ''4'' \<or> key ev = ''m'' \<or> key ev = ''M''"
  shows "sorted (contpoints (snd (on_keypress tk s ev)))"
proof (cases "inaxes ev = Some MainAxes")
  case False
  have "on_keypress tk s ev = (None, s)"
    using assms(2) False by (intro on_keypress_elsewhere) auto
  then show ?thesis using assms(1) by simp
next
  case True
  from assms(2) consider "key ev = ''d'' \<or> key ev = ''4''" | "key ev = ''m''" | "key ev = ''M''"
    by blast
  then show ?thesis
  proof cases
    case 1
    then show ?thesis
      using assms(1) True delete_knot_cases [of tk s ev]
      by (auto simp: on_keypress_delete sorted_remove1)
  next
    case 2
    then show ?thesis
      using assms(1) True move_knot_contpoints [of tk s ev] by (auto simp: on_keypress_move)
  next
    case 3
    then show ?thesis
      using assms(1) True move_knot_median_contpoints [of tk s ev]
      by (auto simp: on_keypress_move_median)
  qed
qed

section \<open>Deleting a knot\<close>

text \<open>
  C3: on a delete event (\<^verbatim>\<open>d\<close> or \<^verbatim>\<open>4\<close>) with the cursor in the spectrum axes, the knot
  list loses exactly the entry at the index of the nearest knot, unless fewer than 3
  knots are present or that index is the first or the last, in which cases the list is
  unchanged. The nearest knot is an entry of the list whose Euclidean distance in
  screen pixels to the cursor is no larger than any other knot's.
\<close>

theorem delete_removes_nearest:
  assumes "key ev = ''d'' \<or> key ev = ''4''" and "inaxes ev = Some MainAxes"
  shows "contpoints (snd (on_keypress tk s ev)) =
           (if length (contpoints s) < 3 \<or> nearest tk (contpoints s) ev = 0
               \<or> nearest tk (contpoints s) ev = length (contpoints s) - 1
            then contpoints s
            else take (nearest tk (contpoints s) ev) (contpoints s)
                 @ drop (Suc (nearest tk (contpoints s) ev)) (contpoints s))
       \<and> (\<forall>j<length (contpoints s).
             nearest tk (contpoints s) ev < length (contpoints s)
           \<and> sqrt ((xpix ev - fst (transData tk (contpoints s ! nearest tk (contpoints s) ev)))\<^sup>2
                 + (ypix ev - snd (transData tk (contpoints s ! nearest tk (contpoints s) ev)))\<^sup>2)
             \<le> sqrt ((xpix ev - fst (transData tk (contpoints s ! j)))\<^sup>2
                 + (ypix ev - snd (transData tk (contpoints s ! j)))\<^sup>2))"
proof -
  have a: "on_keypress tk s ev = delete_knot tk s ev"
    using assms by (rule on_keypress_delete)
  have b: "\<forall>j<length (contpoints s).
             nearest tk (contpoints s) ev < length (contpoints s)
           \<and> sqrt ((xpix ev - fst (transData tk (contpoints s ! nearest tk (contpoints s) ev)))\<^sup>2
                 + (ypix ev - snd (transData tk (contpoints s ! nearest tk (contpoints s) ev)))\<^sup>2)
             \<le> sqrt ((xpix ev - fst (transData tk (contpoints s ! j)))\<^sup>2
                 + (ypix ev - snd (transData tk (contpoints s ! j)))\<^sup>2)"
  proof (intro allI impI conjI)
    fix j assume j: "j < length (contpoints s)"
    then have "contpoints s \<noteq> []" by auto
    then show "nearest tk (contpoints s) ev < length (contpoints s)" by (rule nearest_less)
    show "sqrt ((xpix ev - fst (transData tk (contpoints s ! nearest tk (contpoints s) ev)))\<^sup>2
                 + (ypix ev - snd (transData tk (contpoints s ! nearest tk (contpoints s) ev)))\<^sup>2)
             \<le> sqrt ((xpix ev - fst (transData tk (contpoints s ! j)))\<^sup>2
                 + (ypix ev - snd (transData tk (contpoints s ! j)))\<^sup>2)"
      using nearest_minimal [OF j, of ev tk] by (simp only: hypot_def)
  qed
  show ?thesis
    unfolding a using b by (simp only: delete_knot_contpoints simp_thms)
qed

theorem delete_removes_nearest_witness:
  "contpoints (snd (on_keypress tk0 three_knots (at_cursor ''d'' 4500 2))) =
     [(4000, 1), (5000, 1)]"
proof -
  have k: "key (at_cursor ''d'' 4500 2) = ''d'' \<or> key (at_cursor ''d'' 4500 2) = ''4''"
    and i: "inaxes (at_cursor ''d'' 4500 2) = Some MainAxes"
    by (simp_all add: at_cursor_def)
  have c: "contpoints three_knots = [(4000, 1), (4500, 2), (5000, 1)]"
    by (simp add: three_knots_def)
  show ?thesis
    using delete_removes_nearest [OF k i, of tk0 three_knots]
    by (simp add: c nearest_three)
qed

section \<open>Rejected edits\<close>

text \<open>
  C9: an add, delete or move event that is rejected (the cursor's wavelength outside
  the fitting window, fewer than 3 knots on a delete, the wavelength of an existing
  knot on an add, an edge anchor as the nearest knot on a delete or move) leaves the
  whole state as it was: the knot list, the continuum array and the window indices
  among it. No exception is raised.
\<close>

theorem rejected_edit_changes_nothing:
  assumes "((key ev = ''a'' \<or> key ev = ''3'' \<or> key ev = ''A'' \<or> key ev = ''m'' \<or> key ev = ''M'')
              \<and> \<not> between (xdata ev) (wmin s) (wmax s))
         \<or> ((key ev = ''d'' \<or> key ev = ''4'') \<and> length (contpoints s) < 3)
         \<or> ((key ev = ''a'' \<or> key ev = ''3'' \<or> key ev = ''A'')
              \<and> xdata ev \<in> set (map fst (contpoints s)))
         \<or> ((key ev = ''d'' \<or> key ev = ''4'' \<or> key ev = ''m'' \<or> key ev = ''M'')
              \<and> contpoints s \<noteq> []
              \<and> (nearest tk (contpoints s) ev = 0
                  \<or> nearest tk (contpoints s) ev = length (contpoints s) - 1))"
  shows "on_keypress tk s ev = (None, s)"
proof (cases "inaxes ev = Some MainAxes")
  case False
  from assms have "key ev \<noteq> ''q''" "key ev \<noteq> ''+''" "key ev \<noteq> ''_''" by auto
  then show ?thesis using False by (rule on_keypress_elsewhere)
next
  case True
  have l: "length (sep tk (contpoints s) ev) = length (contpoints s)" by (simp add: sep_def)
  from assms consider
      (outside) "key ev = ''a'' \<or> key ev = ''3'' \<or> key ev = ''A'' \<or> key ev = ''m'' \<or> key ev = ''M''"
        "\<not> between (xdata ev) (wmin s) (wmax s)"
    | (few) "key ev = ''d'' \<or> key ev = ''4''" "length (contpoints s) < 3"
    | (dup) "key ev = ''a'' \<or> key ev = ''3'' \<or> key ev = ''A''"
        "xdata ev \<in> set (map fst (contpoints s))"
    | (edge) "key ev = ''d'' \<or> key ev = ''4'' \<or> key ev = ''m'' \<or> key ev = ''M''"
        "contpoints s \<noteq> []"
        "nearest tk (contpoints s) ev = 0 \<or> nearest tk (contpoints s) ev = length (contpoints s) - 1"
    by blast
  then show ?thesis
  proof cases
    case outside
    from outside(1) consider "key ev = ''a'' \<or> key ev = ''3''" | "key ev = ''A''"
      | "key ev = ''m''" | "key ev = ''M''" by blast
    then show ?thesis
    proof cases
      case 1
      then show ?thesis using outside(2) True
        by (simp add: on_keypress_add add_knot_def)
    next
      case 2
      then show ?thesis using outside(2) True
        by (simp add: on_keypress_add_median add_knot_median_def)
    next
      case 3
      then show ?thesis using outside(2) True
        by (simp add: on_keypress_move move_knot_def)
    next
      case 4
      then show ?thesis using outside(2) True
        by (simp add: on_keypress_move_median move_knot_median_def)
    qed
  next
    case few
    then show ?thesis using True by (simp add: on_keypress_delete delete_knot_def)
  next
    case dup
    then have ne: "contpoints s \<noteq> []" by auto
    from dup(1) consider "key ev = ''a'' \<or> key ev = ''3''" | "key ev = ''A''" by blast
    then show ?thesis
    proof cases
      case 1
      then show ?thesis using dup(2) ne True
        by (simp add: on_keypress_add add_knot_def)
    next
      case 2
      then show ?thesis using dup(2) ne True
        by (simp add: on_keypress_add_median add_knot_median_def)
    qed
  next
    case edge
    from edge(1) consider "key ev = ''d'' \<or> key ev = ''4''" | "key ev = ''m''" | "key ev = ''M''"
      by blast
    then show ?thesis
    proof cases
      case 1
      then show ?thesis using edge(2,3) True l
        by (simp add: on_keypress_delete delete_knot_def)
    next
      case 2
      then show ?thesis using edge(2,3) True l
        by (simp add: on_keypress_move move_knot_def)
    next
      case 3
      then show ?thesis using edge(2,3) True l
        by (simp add: on_keypress_move_median move_knot_median_def)
    qed
  qed
qed

theorem rejected_edit_changes_nothing_witness:
  "on_keypress tk0 three_knots (at_cursor ''a'' 3000 1) = (None, three_knots)
   \<and> on_keypress tk0 two_knots (at_cursor ''d'' 4500 1) = (None, two_knots)
   \<and> on_keypress tk0 three_knots (at_cursor ''A'' 4500 1) = (None, three_knots)
   \<and> on_keypress tk0 three_knots (at_cursor ''m'' 4001 1) = (None, three_knots)"
proof -
  have n: "nearest tk0 (contpoints three_knots) (at_cursor ''m'' 4001 1) = 0"
    by (simp add: nearest_def sep_def three_knots_def at_cursor_def tk0_def hypot_le_iff Let_def)
  have 1: "on_keypress tk0 three_knots (at_cursor ''a'' 3000 1) = (None, three_knots)"
    by (rule rejected_edit_changes_nothing)
       (simp add: at_cursor_def three_knots_def between_def)
  have 2: "on_keypress tk0 two_knots (at_cursor ''d'' 4500 1) = (None, two_knots)"
    by (rule rejected_edit_changes_nothing)
       (simp add: at_cursor_def two_knots_def)
  have 3: "on_keypress tk0 three_knots (at_cursor ''A'' 4500 1) = (None, three_knots)"
    by (rule rejected_edit_changes_nothing)
       (simp add: at_cursor_def three_knots_def)
  have 4: "on_keypress tk0 three_knots (at_cursor ''m'' 4001 1) = (None, three_knots)"
    by (rule rejected_edit_changes_nothing) (simp add: n, simp add: at_cursor_def three_knots_def)
  from 1 2 3 4 show ?thesis by simp
qed

section \<open>Moving a knot onto an existing wavelength with the median estimate\<close>

text \<open>
  C10: key \<^verbatim>\<open>M\<close> with the cursor in the spectrum axes and inside the fitting window,
  at the wavelength of an existing knot, with a nearest knot that is not an edge
  anchor, raises NameError: \<^verbatim>\<open>y\<close> is read at line 508 and was never bound. The state
  is as before the event.
\<close>

theorem move_median_on_knot_raises:
  assumes "key ev = ''M''" and "inaxes ev = Some MainAxes"
    and "between (xdata ev) (wmin s) (wmax s)"
    and "xdata ev \<in> set (map fst (contpoints s))"
    and "nearest tk (contpoints s) ev \<noteq> 0"
    and "nearest tk (contpoints s) ev \<noteq> length (contpoints s) - 1"
  shows "on_keypress tk s ev = (Some NameError, s)"
proof -
  have ne: "contpoints s \<noteq> []" using assms(4) by auto
  have l: "length (sep tk (contpoints s) ev) = length (contpoints s)" by (simp add: sep_def)
  show ?thesis
    using assms ne l by (simp add: on_keypress_move_median move_knot_median_def)
qed

theorem move_median_on_knot_raises_witness:
  "on_keypress tk0 three_knots (at_cursor ''M'' 4500 2) = (Some NameError, three_knots)"
proof -
  have c: "contpoints three_knots = [(4000, 1), (4500, 2), (5000, 1)]"
    by (simp add: three_knots_def)
  show ?thesis
    by (rule move_median_on_knot_raises)
       (simp_all add: c nearest_three, simp_all add: at_cursor_def three_knots_def between_def)
qed

section \<open>Doubling the knots\<close>

text \<open>
  C4: from the knot list of the two anchors (4000, 1.0) and (5000, 0.9), one \<^verbatim>\<open>+\<close> event
  leaves exactly one new knot, between them, at wavelength 4500 with flux 0.95, when
  no pixel within 10 pixels of 4500 has a usable flux (so that \<^verbatim>\<open>local_median\<close>
  returns the interpolated default).
\<close>

theorem double_two_anchors:
  assumes "key ev = ''+''"
    and "contpoints s = [(4000, 1), (5000, 9 / 10)]"
    and "good_flux (wa s) (fl s) (er s) 4500 10 = []"
  shows "contpoints (snd (on_keypress tk s ev)) = [(4000, 1), (4500, 19 / 20), (5000, 9 / 10)]"
proof -
  have m: "local_median (wa s) (fl s) (er s) 4500 10 d = d" for d
    using assms(3) by (simp add: local_median_def)
  have i: "interp 4500 [4000, 5000] [1, 9 / 10] = 19 / 20"
    by (simp add: interp_def)
  show ?thesis
    using assms(1,2)
    by (simp add: on_keypress_plus double_knots_contpoints midpoints_def diff_def m i)
qed

theorem double_two_anchors_witness:
  "contpoints (snd (on_keypress tk0 two_knots (at_cursor ''+'' 0 0)))
     = [(4000, 1), (4500, 19 / 20), (5000, 9 / 10)]"
  by (rule double_two_anchors [OF _ _ two_knots_no_median])
     (simp_all add: at_cursor_def two_knots_def)

section \<open>Adding and deleting the same knot\<close>



section \<open>Doubling and then halving\<close>

text \<open>
  C5 (as stated): for every sorted knot list, \<^verbatim>\<open>+\<close> followed by \<^verbatim>\<open>_\<close> leaves the first and
  the last entry as they were. With two knots at the first wavelength the midpoint of
  that pair is the first wavelength again, and with a local median below the first
  knot's flux the new knot sorts in front of it: the first entry changes from (1, 5)
  to (1, 0). This happens for the two knots (1, 5), (1, 7) alone, with no interior
  knot, and for the three knots (1, 5), (1, 7), (2, 0).
\<close>

theorem double_then_halve_counterexample:
  "sorted (contpoints tied_anchors)
   \<and> hd (contpoints (snd (on_keypress tk0
            (snd (on_keypress tk0 tied_anchors (at_cursor ''+'' 0 0))) (at_cursor ''_'' 0 0))))
       \<noteq> hd (contpoints tied_anchors)
   \<and> sorted (contpoints tied_knots)
   \<and> hd (contpoints (snd (on_keypress tk0
            (snd (on_keypress tk0 tied_knots (at_cursor ''+'' 0 0))) (at_cursor ''_'' 0 0))))
       \<noteq> hd (contpoints tied_knots)"
proof -
  let ?a1 = "snd (on_keypress tk0 tied_anchors (at_cursor ''+'' 0 0))"
  let ?s1 = "snd (on_keypress tk0 tied_knots (at_cursor ''+'' 0 0))"
  have "contpoints (snd (halve_knots tk0 ?a1)) = [(1, 0), (1, 7)]"
    by (simp add: halve_knots_contpoints tied_anchors_doubled)
  then have a: "hd (contpoints (snd (on_keypress tk0 ?a1 (at_cursor ''_'' 0 0)))) = (1, 0)"
    by (simp add: on_keypress_underscore at_cursor_def)
  have "contpoints (snd (halve_knots tk0 ?s1)) = [(1, 0), (1, 7), (2, 0)]"
    by (simp add: halve_knots_contpoints tied_doubled)
  then have b: "hd (contpoints (snd (on_keypress tk0 ?s1 (at_cursor ''_'' 0 0)))) = (1, 0)"
    by (simp add: on_keypress_underscore at_cursor_def)
  show ?thesis unfolding a b by (simp add: tied_knots_def tied_anchors_def)
qed

text \<open>
  C5 (amended): for every knot list sorted by wavelength, with at least 2 knots, whose
  first wavelength is strictly below the second and whose last wavelength is strictly
  above the last but one, \<^verbatim>\<open>+\<close> followed by \<^verbatim>\<open>_\<close> gives a knot list with the same first
  and last entries and at most as many interior knots as before.
\<close>

theorem double_then_halve:
  assumes "sorted (map fst (contpoints s))" and "2 \<le> length (contpoints s)"
    and "fst (contpoints s ! 0) < fst (contpoints s ! 1)"
    and "fst (contpoints s ! (length (contpoints s) - 2))
           < fst (contpoints s ! (length (contpoints s) - 1))"
    and "key ev1 = ''+''" and "key ev2 = ''_''"
  shows "hd (contpoints (snd (on_keypress tk (snd (on_keypress tk s ev1)) ev2)))
           = hd (contpoints s)
       \<and> last (contpoints (snd (on_keypress tk (snd (on_keypress tk s ev1)) ev2)))
           = last (contpoints s)
       \<and> length (contpoints (snd (on_keypress tk (snd (on_keypress tk s ev1)) ev2))) - 2
           \<le> length (contpoints s) - 2"
proof -
  let ?cp = "contpoints s"
  let ?xc = "map fst ?cp"
  let ?ys = "map (\<lambda>x. local_median (wa s) (fl s) (er s) x 10 (interp x ?xc (map snd ?cp)))
               (midpoints ?xc)"
  let ?s1 = "snd (on_keypress tk s ev1)"
  let ?cp1 = "contpoints ?s1"
  let ?cp2 = "contpoints (snd (on_keypress tk ?s1 ev2))"
  have ne: "?cp \<noteq> []" using assms(2) by auto
  have c1: "?cp1 = sort (?cp @ zip (midpoints ?xc) ?ys)"
    using assms(5) ne by (simp add: on_keypress_plus double_knots_contpoints)
  have ly: "length ?ys = length (midpoints ?xc)" by simp
  have h1: "hd ?cp1 = hd ?cp"
    unfolding c1 using assms(1-4) ly by (rule doubled_ends(1))
  have l1: "last ?cp1 = last ?cp"
    unfolding c1 using assms(1-4) ly by (rule doubled_ends(2))
  have n1: "length ?cp1 = length ?cp + (length ?cp - 1)"
    unfolding c1 by (simp add: length_midpoints)
  then have ne1: "?cp1 \<noteq> []" using assms(2) by auto
  have c2: "?cp2 = hd ?cp1 # every_second (butlast (tl ?cp1)) @ [last ?cp1]"
    using assms(6) ne1 by (simp add: on_keypress_underscore halve_knots_contpoints)
  have "length ?cp2 = 2 + (length ?cp1 - 2) div 2"
    unfolding c2 by (simp add: length_every_second)
  then have n2: "length ?cp2 = length ?cp" using n1 assms(2) by simp
  have h2: "hd ?cp2 = hd ?cp1" by (subst c2) simp
  have l2: "last ?cp2 = last ?cp1" by (subst c2) simp
  show ?thesis using h1 l1 h2 l2 n2 by (simp only: order_refl simp_thms)
qed

theorem double_then_halve_witness:
  "hd (contpoints (snd (on_keypress tk0
          (snd (on_keypress tk0 three_knots (at_cursor ''+'' 0 0))) (at_cursor ''_'' 0 0))))
     = hd (contpoints three_knots)
   \<and> last (contpoints (snd (on_keypress tk0
          (snd (on_keypress tk0 three_knots (at_cursor ''+'' 0 0))) (at_cursor ''_'' 0 0))))
     = last (contpoints three_knots)
   \<and> length (contpoints (snd (on_keypress tk0
          (snd (on_keypress tk0 three_knots (at_cursor ''+'' 0 0))) (at_cursor ''_'' 0 0)))) - 2
     \<le> length (contpoints three_knots) - 2"
  by (rule double_then_halve) (simp_all add: three_knots_def at_cursor_def)

section \<open>The knot list's invariant\<close>

text \<open>
  C7: the claim is that the knot list is sorted by wavelength, with at least 2 points,
  after initialization and after every edit. Initialization sorts the knots and then
  moves the first one to the wavelength of the pixel at or above it (lines 289 to 290),
  which can lie beyond the second knot: for pixels at 0, 10, 20, 30, 40 and knots at
  the wavelengths 1, 2 and 25 it leaves the knots at 10, 2 and 30, out of order, when
  the spline constructor accepts them.
\<close>

theorem init_leaves_unsorted_knots:
  "InteractiveCoFit_init tk0 [0, 10, 20, 30, 40] [1, 1, 1, 1, 1] [1, 1, 1, 1, 1]
     [(1, 3), (2, 4), (25, 5)] [1, 1, 1, 1, 1] = Inr crossed_knots
   \<and> \<not> sorted (map fst (contpoints crossed_knots))"
  by (simp add: InteractiveCoFit_init_def searchsorted_def getitem_def Let_def update_def
      tk0_def flat_spline_def assign_slice_def slice_index_def py_slice_def flat_evaluator_def
      crossed_knots_def)

text \<open>
  The rest of the invariant holds: every key event keeps a knot list that is sorted by
  wavelength with at least 2 points in that shape, and a completed initialization
  leaves at least 3 points (lemma \<open>init_at_least_three\<close>).
\<close>

lemma edits_keep_sorted_two:
  assumes "sorted (map fst (contpoints s))" and "2 \<le> length (contpoints s)"
  shows "sorted (map fst (contpoints (snd (on_keypress tk s ev))))
       \<and> 2 \<le> length (contpoints (snd (on_keypress tk s ev)))"
proof -
  have ok: "knots_ok (contpoints s)" using assms by (simp add: knots_ok_def)
  have ne: "contpoints s \<noteq> []" using ok by (rule knots_ok_nonempty)
  have "knots_ok (contpoints (snd (on_keypress tk s ev)))"
  proof -
    consider (q) "key ev = ''q''" | (plus) "key ev = ''+''" | (us) "key ev = ''_''"
      | (out) "key ev \<noteq> ''q''" "key ev \<noteq> ''+''" "key ev \<noteq> ''_''" "inaxes ev \<noteq> Some MainAxes"
      | (a) "key ev = ''a'' \<or> key ev = ''3''" "inaxes ev = Some MainAxes"
      | (A) "key ev = ''A''" "inaxes ev = Some MainAxes"
      | (d) "key ev = ''d'' \<or> key ev = ''4''" "inaxes ev = Some MainAxes"
      | (m) "key ev = ''m''" "inaxes ev = Some MainAxes"
      | (M) "key ev = ''M''" "inaxes ev = Some MainAxes"
      | (other) "key ev \<noteq> ''q''" "key ev \<noteq> ''+''" "key ev \<noteq> ''_''" "key ev \<noteq> ''a''"
          "key ev \<noteq> ''3''" "key ev \<noteq> ''A''" "key ev \<noteq> ''d''" "key ev \<noteq> ''4''"
          "key ev \<noteq> ''m''" "key ev \<noteq> ''M''"
      by blast
    then show ?thesis
    proof cases
      case q
      then show ?thesis using ok by (simp add: on_keypress_def)
    next
      case plus
      then show ?thesis
        using ok ne by (simp add: on_keypress_plus double_knots_contpoints knots_ok_sort_append)
    next
      case us
      then show ?thesis
        using ok ne by (simp add: on_keypress_underscore halve_knots_contpoints knots_ok_halve)
    next
      case out
      then show ?thesis using ok by (simp add: on_keypress_elsewhere)
    next
      case a
      then show ?thesis
        using ok add_knot_cases [of tk s ev] by (auto simp: on_keypress_add knots_ok_sort_snoc)
    next
      case A
      then show ?thesis
        using ok add_knot_median_cases [of tk s ev]
        by (auto simp: on_keypress_add_median knots_ok_sort_snoc)
    next
      case d
      then show ?thesis
        using ok delete_knot_cases [of tk s ev] by (auto simp: on_keypress_delete knots_ok_remove1)
    next
      case m
      then show ?thesis
        using ok move_knot_contpoints [of tk s ev]
        by (auto simp: on_keypress_move knots_ok_sort_update)
    next
      case M
      then show ?thesis
        using ok move_knot_median_contpoints [of tk s ev]
        by (auto simp: on_keypress_move_median knots_ok_sort_update)
    next
      case other
      then show ?thesis using ok by (simp add: on_keypress_def Let_def)
    qed
  qed
  then show ?thesis by (simp add: knots_ok_def)
qed

text \<open>
  Whatever the spline constructor does, initialization on that input either raises or
  leaves the knots out of order. It leaves them sorted by wavelength whenever the first
  knot, moved to its pixel, is not beyond the second knot.
\<close>

lemma init_crossed_any_spline:
  assumes "InteractiveCoFit_init tk [0, 10, 20, 30, 40] f e [(1, 3), (2, 4), (25, 5)]
             [1, 1, 1, 1, 1] = Inr s"
  shows "contpoints s = [(10, 3), (2, 4), (30, 5)]"
proof -
  let ?s0 = "\<lparr>wa = [0, 10, 20, 30, 40], fl = f, er = e, continuum = [1, 1, 1, 1, 1],
              contpoints = [(10, 3), (2, 4), (30, 5)], indices = (1, 3),
              anchor_start = (0, 1), anchor_end = (40, 1), wmin = 1, wmax = 25,
              finished = False\<rparr>"
  have "InteractiveCoFit_init tk [0, 10, 20, 30, 40] f e [(1, 3), (2, 4), (25, 5)]
          [1, 1, 1, 1, 1]
        = (case update tk ?s0 of (Some err, s') \<Rightarrow> Inl err | (None, s') \<Rightarrow> Inr s')"
    by (simp add: InteractiveCoFit_init_def searchsorted_def getitem_def Let_def)
  then have "update tk ?s0 = (None, s)"
    using assms by (auto split: prod.splits option.splits)
  then have "contpoints s = contpoints ?s0" by (rule update_Inr_contpoints)
  then show ?thesis by simp
qed

lemma init_sorted_if:
  assumes "InteractiveCoFit_init tk w f e cps0 co = Inr s"
    and "fst (contpoints s ! 0) \<le> fst (sort cps0 ! 1)"
  shows "sorted (map fst (contpoints s))"
proof -
  let ?cps = "sort cps0"
  let ?n = "length ?cps"
  obtain w1 w2 y1 y2 where ne: "?cps \<noteq> []"
    and cs: "contpoints s = (?cps[0 := (w1, y1)])[?n - 1 := (w2, y2)]"
    and hi: "fst (last ?cps) \<le> w2"
    using init_shape [OF assms(1)] by blast
  have n3: "3 \<le> ?n" using init_at_least_three [OF assms(1)] cs by simp
  have srt: "sorted (map fst ?cps)" by (rule sorted_fst_sort)
  have "\<forall>i. Suc i < length (map fst (contpoints s))
          \<longrightarrow> map fst (contpoints s) ! i \<le> map fst (contpoints s) ! Suc i"
  proof (intro allI impI)
    fix i assume "Suc i < length (map fst (contpoints s))"
    then have i: "Suc i < ?n" using cs by simp
    have mid: "fst (?cps ! i) \<le> fst (?cps ! Suc i)"
      using sorted_nth_mono [OF srt, of i "Suc i"] i by simp
    consider (first) "i = 0" | (inner) "0 < i" "Suc i < ?n - 1" | (final) "0 < i" "Suc i = ?n - 1"
      using i by linarith
    then have "fst (contpoints s ! i) \<le> fst (contpoints s ! Suc i)"
    proof cases
      case first
      then have "contpoints s ! Suc i = ?cps ! 1" using cs n3 by simp
      then show ?thesis using first assms(2) by simp
    next
      case inner
      then have "contpoints s ! i = ?cps ! i" "contpoints s ! Suc i = ?cps ! Suc i"
        using cs by simp_all
      then show ?thesis using mid by simp
    next
      case final
      then have x: "contpoints s ! i = ?cps ! i" using cs by simp
      have y: "contpoints s ! Suc i = (w2, y2)" using final cs i by simp
      have "fst (?cps ! Suc i) = fst (last ?cps)" using final ne by (simp add: last_conv_nth)
      then show ?thesis using x y mid hi by simp
    qed
    then show "map fst (contpoints s) ! i \<le> map fst (contpoints s) ! Suc i"
      using i cs by simp
  qed
  then show ?thesis by (simp only: sorted_iff_nth_Suc)
qed

section \<open>The edge anchors under moves\<close>

text \<open>
  C8: the claim is that no sequence of delete and move events changes the first or the
  last entry of the knot list. The move handler accepts a cursor anywhere in the
  window from \<^verbatim>\<open>wmin\<close>, the smallest wavelength passed in, while the first anchor was
  moved up to a pixel's wavelength: in the state initialization leaves for pixels at
  0, 10, 20, 30, 40 and knots at 1, 15 and 25, moving the interior knot to wavelength 5
  sorts it in front of the first anchor, and the first entry changes from (10, 100)
  to (5, 0).
\<close>

theorem move_displaces_first_anchor:
  "InteractiveCoFit_init tk0 [0, 10, 20, 30, 40] [1, 1, 1, 1, 1] [1, 1, 1, 1, 1]
     [(1, 100), (15, 0), (25, 50)] [1, 1, 1, 1, 1] = Inr snapped_knots
   \<and> contpoints snapped_knots = [(10, 100), (15, 0), (30, 50)]
   \<and> contpoints (snd (on_keypress tk0 snapped_knots (at_cursor ''m'' 5 0)))
       = [(5, 0), (10, 100), (30, 50)]"
proof -
  have c: "contpoints snapped_knots = [(10, 100), (15, 0), (30, 50)]"
    by (simp add: snapped_knots_def)
  have n: "nearest tk0 [(10, 100), (15, 0), (30, 50)] (at_cursor ''m'' 5 0) = 1"
    by (simp add: nearest_def sep_def at_cursor_def tk0_def hypot_le_iff Let_def)
  have b: "between (xdata (at_cursor ''m'' 5 0)) (wmin snapped_knots) (wmax snapped_knots)"
    by (simp add: between_def at_cursor_def snapped_knots_def)
  have "contpoints (snd (move_knot tk0 snapped_knots (at_cursor ''m'' 5 0)))
          = sort ([(10, 100), (15, 0), (30, 50)][1 := (5, 0)])"
    using b by (simp add: move_knot_def c n Let_def update_contpoints sep_def)
       (simp add: at_cursor_def)
  then have "contpoints (snd (on_keypress tk0 snapped_knots (at_cursor ''m'' 5 0)))
          = [(5, 0), (10, 100), (30, 50)]"
    by (simp add: on_keypress_move at_cursor_def)
  then show ?thesis using c init_snapped by simp
qed

text \<open>
  What the guards do achieve: a delete never changes the first or last entry, and
  neither does a move whose cursor wavelength lies strictly between the wavelengths of
  the first and last entry of a sorted list; so no sequence of such events does.
\<close>

lemma delete_keeps_ends:
  assumes "key ev = ''d'' \<or> key ev = ''4''"
  shows "hd (contpoints (snd (on_keypress tk s ev))) = hd (contpoints s)
       \<and> last (contpoints (snd (on_keypress tk s ev))) = last (contpoints s)"
proof (cases "inaxes ev = Some MainAxes")
  case False
  have "on_keypress tk s ev = (None, s)"
    using assms False by (intro on_keypress_elsewhere) auto
  then show ?thesis by simp
next
  case True
  let ?cp = "contpoints s"
  let ?k = "nearest tk ?cp ev"
  show ?thesis
  proof (cases "length ?cp < 3 \<or> ?k = 0 \<or> ?k = length ?cp - 1")
    case True
    then show ?thesis
      using assms \<open>inaxes ev = Some MainAxes\<close>
      by (simp add: on_keypress_delete delete_knot_contpoints)
  next
    case False
    then have ne: "?cp \<noteq> []" by auto
    have k: "0 < ?k" "Suc ?k < length ?cp"
      using False nearest_less [OF ne, of tk ev] by auto
    have c: "contpoints (snd (on_keypress tk s ev)) = take ?k ?cp @ drop (Suc ?k) ?cp"
      using assms \<open>inaxes ev = Some MainAxes\<close> False
      by (simp add: on_keypress_delete delete_knot_contpoints)
    have t: "take ?k ?cp \<noteq> []" using k ne by simp
    have d: "drop (Suc ?k) ?cp \<noteq> []" using k by simp
    have "hd (take ?k ?cp @ drop (Suc ?k) ?cp) = hd ?cp" using t k by (simp add: hd_take)
    moreover have "last (take ?k ?cp @ drop (Suc ?k) ?cp) = last ?cp"
      using d k by (simp add: last_drop)
    ultimately show ?thesis unfolding c by simp
  qed
qed

lemma move_keeps_ends_inside:
  assumes "key ev = ''m'' \<or> key ev = ''M''" and "sorted (contpoints s)"
    and "fst (hd (contpoints s)) < xdata ev" and "xdata ev < fst (last (contpoints s))"
  shows "hd (contpoints (snd (on_keypress tk s ev))) = hd (contpoints s)
       \<and> last (contpoints (snd (on_keypress tk s ev))) = last (contpoints s)"
proof (cases "inaxes ev = Some MainAxes")
  case False
  have "on_keypress tk s ev = (None, s)"
    using assms(1) False by (intro on_keypress_elsewhere) auto
  then show ?thesis by simp
next
  case True
  let ?cp = "contpoints s"
  let ?k = "nearest tk ?cp ev"
  have l: "length (sep tk ?cp ev) = length ?cp" by (simp add: sep_def)
  have ends: "hd (sort (?cp[?k := (xdata ev, y)])) = hd ?cp
            \<and> last (sort (?cp[?k := (xdata ev, y)])) = last ?cp"
    if "?cp \<noteq> []" "?k \<noteq> 0" "?k \<noteq> length ?cp - 1" for y
  proof -
    have "?k < length ?cp" using that(1) by (rule nearest_less)
    then have k: "0 < ?k" "?k < length ?cp - 1" using that(2,3) by auto
    show ?thesis
      using sorted_update_ends [OF assms(2) k, of "(xdata ev, y)"] assms(3,4) by simp
  qed
  from assms(1) show ?thesis
  proof
    assume m: "key ev = ''m''"
    show ?thesis
      using m True l ends [of "ydata ev"]
      by (auto simp: on_keypress_move move_knot_def Let_def update_contpoints)
  next
    assume m: "key ev = ''M''"
    show ?thesis
      using m True l ends [of "local_median (wa s) (fl s) (er s) (xdata ev) 10 (ydata ev)"]
      by (auto simp: on_keypress_move_median move_knot_median_def Let_def update_contpoints)
  qed
qed

lemma guarded_sequence_keeps_ends:
  assumes "sorted (contpoints s)"
    and "\<forall>ev\<in>set evs. key ev = ''d'' \<or> key ev = ''4''
           \<or> ((key ev = ''m'' \<or> key ev = ''M'')
               \<and> fst (hd (contpoints s)) < xdata ev \<and> xdata ev < fst (last (contpoints s)))"
  shows "hd (contpoints (run_events tk s evs)) = hd (contpoints s)
       \<and> last (contpoints (run_events tk s evs)) = last (contpoints s)"
  using assms
proof (induction evs arbitrary: s)
  case Nil
  then show ?case by simp
next
  case (Cons ev evs)
  let ?s1 = "snd (on_keypress tk s ev)"
  have k: "key ev = ''d'' \<or> key ev = ''4''
           \<or> ((key ev = ''m'' \<or> key ev = ''M'')
               \<and> fst (hd (contpoints s)) < xdata ev \<and> xdata ev < fst (last (contpoints s)))"
    using Cons.prems(2) by simp
  have ends: "hd (contpoints ?s1) = hd (contpoints s) \<and> last (contpoints ?s1) = last (contpoints s)"
  proof (cases "key ev = ''d'' \<or> key ev = ''4''")
    case True
    then show ?thesis by (rule delete_keeps_ends)
  next
    case False
    then have "key ev = ''m'' \<or> key ev = ''M''"
      and "fst (hd (contpoints s)) < xdata ev" and "xdata ev < fst (last (contpoints s))"
      using k by auto
    then show ?thesis using Cons.prems(1) by (intro move_keeps_ends_inside)
  qed
  have srt: "sorted (contpoints ?s1)"
    using Cons.prems(1) k by (intro delete_move_keeps_sorted) auto
  have rest: "\<forall>ev\<in>set evs. key ev = ''d'' \<or> key ev = ''4''
           \<or> ((key ev = ''m'' \<or> key ev = ''M'')
               \<and> fst (hd (contpoints ?s1)) < xdata ev \<and> xdata ev < fst (last (contpoints ?s1)))"
    using Cons.prems(2) ends by simp
  have "hd (contpoints (run_events tk ?s1 evs)) = hd (contpoints ?s1)
       \<and> last (contpoints (run_events tk ?s1 evs)) = last (contpoints ?s1)"
    using srt rest by (rule Cons.IH)
  then show ?case using ends by simp
qed

section \<open>Initialization at the upper end of the spectrum\<close>

text \<open>
  C2: the claim is that initialization succeeds when the knots reach the first or last
  spectrum wavelength or beyond. For a spectrum of strictly increasing wavelengths and
  a knot list whose largest wavelength is at or beyond the last spectrum wavelength,
  initialization raises IndexError: line 288 sets \<^verbatim>\<open>i2\<close> to \<^verbatim>\<open>len(wa)\<close> and line 292
  reads \<^verbatim>\<open>wa[i2]\<close>.
\<close>

theorem init_raises_at_upper_end:
  assumes "sorted_wrt (<) w" and "w \<noteq> []" and "cps0 \<noteq> []"
    and "last w \<le> fst (last (sort cps0))"
  shows "InteractiveCoFit_init tk w f e cps0 co = Inl IndexError"
proof -
  let ?cps = "sort cps0"
  have ne: "?cps \<noteq> []" using assms(3) by (metis length_0_conv length_sort)
  let ?k2 = "searchsorted w (fst (last ?cps))"
  have k2: "(if ?k2 = int (length w) - 1 \<or> ?k2 < 0 then int (length w) else ?k2) = int (length w)"
    using searchsorted_at_or_beyond_last [OF assms(1,2,4)] by auto
  let ?k1 = "searchsorted w (fst (hd ?cps))"
  show ?thesis
  proof (cases "getitem w (if ?k1 = 0 then 1 else ?k1)")
    case (Inl err)
    then have "err = IndexError" by (rule getitem_error)
    then show ?thesis
      unfolding InteractiveCoFit_init_def Let_def using ne Inl by simp
  next
    case (Inr w1)
    then show ?thesis
      unfolding InteractiveCoFit_init_def Let_def k2 getitem_length using ne by simp
  qed
qed

theorem init_raises_at_upper_end_witness:
  "InteractiveCoFit_init tk0 [3900, 4000, 4500, 5000, 5100] [1, 1, 1, 1, 1] [1, 1, 1, 1, 1]
     [(4000, 1), (4500, 2), (5100, 1)] [1, 1, 1, 1, 1] = Inl IndexError"
  by (rule init_raises_at_upper_end) simp_all

end
